theory Spec2Isabelle
  imports Main "HOL-Library.Word" "HOL-Library.Sublist"
begin

unbundle bit_operations_syntax

section \<open>The capture-session reactor of nethogs (src/main.cpp)\<close>

text \<open>
  The reactor is the \<^verbatim>\<open>main\<close> function of \<^verbatim>\<open>src/main.cpp\<close> with its helpers
  \<^verbatim>\<open>quit_cb\<close>, \<^verbatim>\<open>forceExit\<close>, \<^verbatim>\<open>create_self_pipe\<close>, \<^verbatim>\<open>wait_for_next_trigger\<close> and
  \<^verbatim>\<open>clean_up\<close>. The file-level and global variables become the fields of one state
  record that every function takes and returns. Calls into the operating system and
  into the other translation units (the UI, the packet decoder, the process table) are
  recorded, in program order, in the field \<open>trace\<close>; what such a call answers is an
  input of the model. A call of \<^verbatim>\<open>exit\<close> is the left injection of a sum, carrying the
  exit status and the state at that moment.
\<close>

subsection \<open>Data\<close>

text \<open>The four packet kinds for which \<^verbatim>\<open>main\<close> installs a callback.\<close>

datatype dp_packet_type = dp_packet_ip | dp_packet_ip6 | dp_packet_tcp | dp_packet_udp

text \<open>
  The observable calls. \<open>Write fd buf\<close> is \<^verbatim>\<open>write(fd, buf, length buf)\<close>,
  \<open>Select nfds fds sec\<close> is \<^verbatim>\<open>select\<close> on the read set \<open>fds\<close> with a timeout of
  \<open>sec\<close> seconds, \<open>Stderr msg\<close> is a text written to the standard error stream,
  \<open>StderrNum msg n\<close> the text \<open>msg\<close> followed there by the number \<open>n\<close> and an end of
  line. The other constructors are the calls of the same names.
\<close>

datatype event =
    Write int string
  | Close int
  | Select int "int set" int
  | Usleep nat
  | Stderr string
  | StderrNum string int
  | InitUi
  | ExitUi
  | UiTick
  | DoRefresh
  | Procclean
  | GetLocal string
  | DpOpenLive string int
  | DpAddcb nat dp_packet_type
  | DpSetnonblock nat
  | GetSelectableFd nat
  | DpDispatch nat
  | Signal

text \<open>
  One element of the session chain: class \<^verbatim>\<open>handle\<close> holds the capture handle
  (here its identity, a number) and the device name; the \<^verbatim>\<open>next\<close> pointer is the
  tail of the list.
\<close>

record handle =
  content :: nat
  devicename :: string

text \<open>
  The variables of \<^verbatim>\<open>main.cpp\<close> (\<open>self_pipe\<close>, \<open>last_refresh_time\<close>,
  \<open>pc_loop_fd_set\<close>, \<open>pc_loop_fd_list\<close>, \<open>pc_loop_use_select\<close>), the globals of the
  program that the reactor reads (\<open>tracemode\<close>, \<open>refreshdelay\<close>), the compile-time
  switch \<open>DEBUG\<close>, the session chain \<open>handles\<close> of \<^verbatim>\<open>main\<close>, and the trace.
  \<^verbatim>\<open>time_t\<close> is declared by the platform, not by the program: its values are
  integers of \<open>time_t_bits\<close> bits in two's complement, and the number of bits (32 or
  64 on the systems the program is built for) is a field of the state beside \<open>DEBUG\<close>.
\<close>

record state =
  self_pipe :: "int \<times> int"
  last_refresh_time :: int
  pc_loop_fd_set :: "int set"
  pc_loop_fd_list :: "int list"
  pc_loop_use_select :: bool
  tracemode :: bool
  refreshdelay :: int
  DEBUG :: bool
  time_t_bits :: nat
  handles :: "handle list"
  trace :: "event list"

definition emit :: "event \<Rightarrow> state \<Rightarrow> state" where
  "emit e s = s\<lparr>trace := trace s @ [e]\<rparr>"

text \<open>The end of line, \<^verbatim>\<open>"\n"\<close> in a format string and \<^verbatim>\<open>std::endl\<close> on a stream.\<close>

definition endl :: string where
  "endl = [CHR 0x0A]"

definition EXIT_SUCCESS :: int where
  "EXIT_SUCCESS = 0"

definition EXIT_FAILURE :: int where
  "EXIT_FAILURE = 1"

subsection \<open>The shutdown trigger and the fatal exit\<close>

text \<open>
  \<^verbatim>\<open>quit_cb\<close>: one byte written to the second end of the pipe when that end is not
  \<open>-1\<close>, \<^verbatim>\<open>exit(0)\<close> otherwise. The argument is ignored.
\<close>

definition quit_cb :: "int \<Rightarrow> state \<Rightarrow> (int \<times> state) + state" where
  "quit_cb i s =
     (if snd (self_pipe s) \<noteq> -1 then Inr (emit (Write (snd (self_pipe s)) ''x'') s)
      else Inl (0, s))"

text \<open>
  \<^verbatim>\<open>forceExit\<close>: leaves the UI unless tracing or debugging, prints the message and
  an end of line, and exits with the status chosen by \<open>success\<close>. It never returns.
\<close>

definition forceExit :: "bool \<Rightarrow> string \<Rightarrow> state \<Rightarrow> int \<times> state" where
  "forceExit success msg s =
     (let s1 = (if \<not> tracemode s \<and> \<not> DEBUG s then emit ExitUi s else s);
          s2 = emit (Stderr (msg @ endl)) s1
      in (if success then EXIT_SUCCESS else EXIT_FAILURE, s2))"

text \<open>
  \<^verbatim>\<open>create_self_pipe\<close>: \<open>pipe_res\<close> is what \<^verbatim>\<open>pipe\<close> answers (\<open>None\<close> for \<open>-1\<close>),
  \<open>fcntl0\<close> and \<open>fcntl1\<close> what the two \<^verbatim>\<open>fcntl(F_SETFL)\<close> calls answer.
\<close>

definition create_self_pipe :: "(int \<times> int) option \<Rightarrow> int \<Rightarrow> int \<Rightarrow> int \<times> int" where
  "create_self_pipe pipe_res fcntl0 fcntl1 =
     (case pipe_res of
        None \<Rightarrow> (-1, -1)
      | Some pfd \<Rightarrow>
          if fcntl0 = -1 then (-1, -1)
          else if fcntl1 = -1 then (-1, -1)
          else (fst pfd, snd pfd))"

subsection \<open>Idle wait and teardown\<close>

text \<open>The loop of \<^verbatim>\<open>wait_for_next_trigger\<close> over \<open>pc_loop_fd_list\<close>, on \<open>nfds\<close> and the set.\<close>

fun fd_loop :: "int list \<Rightarrow> int \<times> int set \<Rightarrow> int \<times> int set" where
  "fd_loop [] c = c"
| "fd_loop (fd # fds) (nfds, fdset) = fd_loop fds (max nfds (fd + 1), insert fd fdset)"

text \<open>
  \<^verbatim>\<open>wait_for_next_trigger\<close>. \<open>sel\<close> is what \<^verbatim>\<open>select\<close> answers: \<open>None\<close> for \<open>-1\<close>,
  \<open>Some r\<close> for any other value, \<open>r\<close> being the descriptors it leaves in the set.
  The result \<open>False\<close> means that the shutdown was requested.
\<close>

definition wait_for_next_trigger :: "int set option \<Rightarrow> state \<Rightarrow> bool \<times> state" where
  "wait_for_next_trigger sel s =
     (if pc_loop_use_select s then
        (case fd_loop (pc_loop_fd_list s) (0, {}) of (nfds, fdset) \<Rightarrow>
           let s1 = emit (Select nfds fdset (refreshdelay s)) (s\<lparr>pc_loop_fd_set := fdset\<rparr>)
           in (case sel of
                 Some r \<Rightarrow>
                   let s2 = s1\<lparr>pc_loop_fd_set := r\<rparr>
                   in if fst (self_pipe s2) \<in> pc_loop_fd_set s2 then (False, s2) else (True, s2)
               | None \<Rightarrow> (True, s1)))
      else (True, emit (Usleep 1000) s))"

fun close_all :: "int list \<Rightarrow> state \<Rightarrow> state" where
  "close_all [] s = s"
| "close_all (fd # fds) s = close_all fds (emit (Close fd) s)"

definition clean_up :: "state \<Rightarrow> state" where
  "clean_up s =
     (let s1 = close_all (pc_loop_fd_list s) s;
          s2 = emit Procclean s1
      in if \<not> tracemode s2 \<and> \<not> DEBUG s2 then emit ExitUi s2 else s2)"

subsection \<open>Startup\<close>

text \<open>
  A device of the list that \<^verbatim>\<open>get_devices\<close> returns, with what the collaborators
  answer when \<^verbatim>\<open>main\<close> calls them for it: \<open>getLocal\<close>, \<open>dp_open_live\<close> (\<open>None\<close> for
  the null pointer), \<open>dp_setnonblock\<close> and \<open>pcap_get_selectable_fd\<close>.
\<close>

record device =
  name :: string
  getLocal :: bool
  dp_open_live :: "nat option"
  dp_setnonblock :: int
  pcap_get_selectable_fd :: int

text \<open>
  What the environment answers during startup, and the local \<open>promisc\<close> set by the
  options. \<open>linux\<close> is the preprocessor symbol \<^verbatim>\<open>__linux__\<close>; \<open>caps1\<close> is \<^verbatim>\<open>caps[1]\<close>
  after \<^verbatim>\<open>getxattr\<close>.
\<close>

record environment =
  devices :: "device list"
  promisc :: int
  linux :: bool
  geteuid :: nat
  readlink :: int
  caps1 :: "32 word"
  pipe_res :: "(int \<times> int) option"
  fcntl0 :: int
  fcntl1 :: int

text \<open>The two capability numbers of \<^verbatim>\<open>linux/capability.h\<close>.\<close>

definition CAP_NET_ADMIN :: nat where
  "CAP_NET_ADMIN = 12"

definition CAP_NET_RAW :: nat where
  "CAP_NET_RAW = 13"

text \<open>Lines 195 to 212 of \<^verbatim>\<open>main\<close>: the check of the process's rights.\<close>

definition privilege_guard :: "environment \<Rightarrow> state \<Rightarrow> (int \<times> state) + state" where
  "privilege_guard env s =
     (if geteuid env \<noteq> 0 then
        (if linux env then
           (if readlink env = -1 then
              Inl (forceExit False ''Failed to locate nethogs binary.'' s)
            else if (drop_bit CAP_NET_ADMIN (caps1 env) AND 1) \<noteq> 1
                    \<or> (drop_bit CAP_NET_RAW (caps1 env) AND 1) \<noteq> 1 then
              Inl (forceExit False ''To run nethogs without being root you need to enable capabilities on the program (cap_net_admin, cap_net_raw), see the documentation for details.'' s)
            else Inr s)
         else Inl (forceExit False ''You need to be root to run NetHogs!'' s))
      else Inr s)"

text \<open>
  The body of the loop over the devices (lines 231 to 274). The loop carries the two
  counters \<open>nb_devices\<close> and \<open>nb_failed_devices\<close> and the state. The counters are
  of type \<^verbatim>\<open>int\<close> in the source and count the devices of the list, so they are
  taken not to overflow.
\<close>

definition open_device ::
  "int \<Rightarrow> device \<Rightarrow> int \<times> int \<times> state \<Rightarrow> (int \<times> state) + (int \<times> int \<times> state)" where
  "open_device prom d c =
     (case c of (nb_devices, nb_failed_devices, s) \<Rightarrow>
        let nb_devices = nb_devices + 1;
            s = emit (GetLocal (name d)) s
        in if \<not> getLocal d then
             Inl (forceExit False ''getifaddrs failed while establishing local IP.'' s)
           else
             let s = emit (DpOpenLive (name d) prom) s
             in (case dp_open_live d of
                   Some newhandle \<Rightarrow>
                     let s = emit (DpAddcb newhandle dp_packet_ip) s;
                         s = emit (DpAddcb newhandle dp_packet_ip6) s;
                         s = emit (DpAddcb newhandle dp_packet_tcp) s;
                         s = emit (DpAddcb newhandle dp_packet_udp) s;
                         s = emit (DpSetnonblock newhandle) s;
                         s = (if dp_setnonblock d = -1 then
                                emit (Stderr (''Error putting libpcap in nonblocking mode'' @ endl)) s
                              else s);
                         s = s\<lparr>handles := \<lparr>content = newhandle, devicename = name d\<rparr> # handles s\<rparr>;
                         s = (if pc_loop_use_select s then
                                let s = emit (GetSelectableFd newhandle) s;
                                    fd = pcap_get_selectable_fd d
                                in if fd \<noteq> -1 then
                                     s\<lparr>pc_loop_fd_list := pc_loop_fd_list s @ [fd]\<rparr>
                                   else
                                     emit (Stderr (''failed to get selectable_fd for '' @ name d @ endl))
                                       (s\<lparr>pc_loop_use_select := False, pc_loop_fd_list := []\<rparr>)
                              else s)
                     in Inr (nb_devices, nb_failed_devices, s)
                 | None \<Rightarrow>
                     Inr (nb_devices, nb_failed_devices + 1,
                          emit (Stderr (''Error opening handler for device '' @ name d @ endl)) s)))"

fun open_devices ::
  "int \<Rightarrow> device list \<Rightarrow> int \<times> int \<times> state \<Rightarrow> (int \<times> state) + (int \<times> int \<times> state)" where
  "open_devices prom [] c = Inr c"
| "open_devices prom (d # ds) c =
     (case open_device prom d c of
        Inl e \<Rightarrow> Inl e
      | Inr c' \<Rightarrow> open_devices prom ds c')"

text \<open>
  Lines 225 to 279: both counters start at 0, the loop runs, and equal counters are
  fatal.
\<close>

definition open_sessions :: "int \<Rightarrow> device list \<Rightarrow> state \<Rightarrow> (int \<times> state) + state" where
  "open_sessions prom ds s =
     (case open_devices prom ds (0, 0, s) of
        Inl e \<Rightarrow> Inl e
      | Inr (nb_devices, nb_failed_devices, s') \<Rightarrow>
          if nb_devices = nb_failed_devices then
            Inl (forceExit False (''Error opening pcap handlers for all devices.'' @ endl) s')
          else Inr s')"

text \<open>
  \<^verbatim>\<open>main\<close> from the call of \<^verbatim>\<open>get_devices\<close> (line 186) to the installation of the
  signal handler (line 281). The options are parsed before: what they set is in the
  initial state and in \<open>promisc\<close>.
\<close>

definition startup :: "environment \<Rightarrow> state \<Rightarrow> (int \<times> state) + state" where
  "startup env s =
     (if devices env = [] then
        Inl (forceExit False ''No devices to monitor. Use '-a' to allow monitoring loopback interfaces or devices that are not up/running'' s)
      else
        let s = (if \<not> tracemode s \<and> \<not> DEBUG s then emit InitUi s else s)
        in (case privilege_guard env s of
              Inl e \<Rightarrow> Inl e
            | Inr s \<Rightarrow>
                let s = s\<lparr>self_pipe := create_self_pipe (pipe_res env) (fcntl0 env) (fcntl1 env)\<rparr>
                in if fst (self_pipe s) = -1 \<or> snd (self_pipe s) = -1 then
                     Inl (forceExit False (''Error creating pipe file descriptors'' @ endl) s)
                   else
                     let s = s\<lparr>pc_loop_fd_list := pc_loop_fd_list s @ [fst (self_pipe s)]\<rparr>
                     in (case open_sessions (promisc env) (devices env) s of
                           Inl e \<Rightarrow> Inl e
                         | Inr s \<Rightarrow> Inr (emit Signal s))))"

subsection \<open>The main loop\<close>

text \<open>
  What the environment answers during one pass through the loop body: the result of
  \<^verbatim>\<open>dp_dispatch\<close> and the text of \<^verbatim>\<open>dp_geterr\<close> for each session, the clock, and the
  answer of \<^verbatim>\<open>select\<close> should the pass reach it.
\<close>

record iteration =
  dp_dispatch :: "handle \<Rightarrow> int"
  dp_geterr :: "handle \<Rightarrow> string"
  now :: int
  select_res :: "int set option"

text \<open>
  The dispatch pass (lines 289 to 303) over the chain, on the flag \<open>packets_read\<close>
  and the state.
\<close>

fun dispatch_pass :: "iteration \<Rightarrow> handle list \<Rightarrow> bool \<times> state \<Rightarrow> bool \<times> state" where
  "dispatch_pass inp [] c = c"
| "dispatch_pass inp (current_handle # rest) (packets_read, s) =
     (let s = emit (DpDispatch (content current_handle)) s;
          retval = dp_dispatch inp current_handle
      in dispatch_pass inp rest
           (if retval = -1 then
              (packets_read,
               emit (Stderr (''Error dispatching for device '' @ devicename current_handle
                             @ '': '' @ dp_geterr inp current_handle @ endl)) s)
            else if retval < 0 then
              (packets_read,
               emit (StderrNum (''Error dispatching for device '' @ devicename current_handle
                                @ '': '') retval) s)
            else if retval \<noteq> 0 then (True, s)
            else (packets_read, s)))"

text \<open>
  The sum of two \<^verbatim>\<open>time_t\<close> values of \<open>w\<close> bits. A sum outside the range of the
  type wraps around, as the addition of the compiled program does:
  \<open>signed_take_bit (w - 1)\<close> keeps the low \<open>w\<close> bits and reads them in two's complement.
\<close>

definition time_t_sum :: "nat \<Rightarrow> int \<Rightarrow> int \<Rightarrow> int" where
  "time_t_sum w a b = signed_take_bit (w - 1) (a + b)"

text \<open>The refresh check (lines 305 to 313).\<close>

definition refresh_check :: "int \<Rightarrow> state \<Rightarrow> state" where
  "refresh_check t s =
     (if time_t_sum (time_t_bits s) (last_refresh_time s) (refreshdelay s) \<le> t then
        let s = s\<lparr>last_refresh_time := t\<rparr>;
            s = (if \<not> DEBUG s \<and> \<not> tracemode s then emit UiTick s else s)
        in emit DoRefresh s
      else s)"

text \<open>
  One pass through the body of \<^verbatim>\<open>while (1)\<close>. The result \<open>False\<close> is the
  \<^verbatim>\<open>break\<close>, \<open>True\<close> the next pass.
\<close>

definition loop_body :: "iteration \<Rightarrow> state \<Rightarrow> bool \<times> state" where
  "loop_body inp s =
     (case dispatch_pass inp (handles s) (False, s) of (packets_read, s) \<Rightarrow>
        let s = refresh_check (now inp) s
        in if \<not> packets_read then
             (case wait_for_next_trigger (select_res inp) s of (r, s) \<Rightarrow>
                if \<not> r then (False, s) else (True, s))
           else (True, s))"

text \<open>
  The loop never ends by itself, so it runs on the answers of the environment for a
  finite number of passes: \<open>Broke\<close> when a pass reaches the \<^verbatim>\<open>break\<close>, \<open>Looping\<close>
  when the answers are used up with the loop still running.
\<close>

datatype run = Looping state | Broke state

fun main_loop :: "iteration list \<Rightarrow> state \<Rightarrow> run" where
  "main_loop [] s = Looping s"
| "main_loop (inp # inps) s =
     (case loop_body inp s of
        (True, s') \<Rightarrow> main_loop inps s'
      | (False, s') \<Rightarrow> Broke s')"

text \<open>
  \<^verbatim>\<open>main\<close>: an exit during startup, a loop still running, or the return after
  \<^verbatim>\<open>clean_up\<close>.
\<close>

datatype outcome = Exited int state | Unfinished state | Returned state

definition main :: "environment \<Rightarrow> iteration list \<Rightarrow> state \<Rightarrow> outcome" where
  "main env inps s =
     (case startup env s of
        Inl (code, s') \<Rightarrow> Exited code s'
      | Inr s' \<Rightarrow>
          (case main_loop inps s' of
             Looping s'' \<Rightarrow> Unfinished s''
           | Broke s'' \<Rightarrow> Returned (clean_up s'')))"

text \<open>
  The state in which the program starts: the initial values of the variables of
  \<^verbatim>\<open>main.cpp\<close>, the options as parsed, the build (\<open>DEBUG\<close> and the bits of
  \<^verbatim>\<open>time_t\<close>), no session, an empty trace.
\<close>

definition initial :: "bool \<Rightarrow> int \<Rightarrow> bool \<Rightarrow> nat \<Rightarrow> state" where
  "initial trace_opt delay dbg bits =
     \<lparr>self_pipe = (-1, -1), last_refresh_time = 0, pc_loop_fd_set = {},
      pc_loop_fd_list = [], pc_loop_use_select = True, tracemode = trace_opt,
      refreshdelay = delay, DEBUG = dbg, time_t_bits = bits, handles = [], trace = []\<rparr>"

text \<open>The state in which a run of the loop stands, broken or not.\<close>

fun final :: "run \<Rightarrow> state" where
  "final (Looping s) = s"
| "final (Broke s) = s"

subsection \<open>Reading the trace\<close>

text \<open>The calls that open a capture session, wait on the registry, and tear down.\<close>

fun is_open :: "event \<Rightarrow> bool" where
  "is_open (DpOpenLive n p) = True"
| "is_open e = False"

fun is_select :: "event \<Rightarrow> bool" where
  "is_select (Select n fds sec) = True"
| "is_select e = False"

fun is_teardown :: "event \<Rightarrow> bool" where
  "is_teardown (Close fd) = True"
| "is_teardown Procclean = True"
| "is_teardown ExitUi = True"
| "is_teardown e = False"

fun is_refresh :: "event \<Rightarrow> bool" where
  "is_refresh DoRefresh = True"
| "is_refresh e = False"

text \<open>
  The notice printed for a device whose session does not open, and the test that
  recognises such a notice among the texts on the error stream.
\<close>

definition skip_notice :: "device \<Rightarrow> event" where
  "skip_notice d = Stderr (''Error opening handler for device '' @ name d @ endl)"

fun is_skip_notice :: "event \<Rightarrow> bool" where
  "is_skip_notice (Stderr m) = prefix ''Error opening handler for device '' m"
| "is_skip_notice e = False"

text \<open>The error line of the dispatch pass for a session, whatever its detail.\<close>

fun is_dispatch_error :: "event \<Rightarrow> bool" where
  "is_dispatch_error (Stderr m) = prefix ''Error dispatching for device '' m"
| "is_dispatch_error (StderrNum m n) = prefix ''Error dispatching for device '' m"
| "is_dispatch_error e = False"

text \<open>
  The sessions that a list of devices adds to the chain: one for each device that
  opens, the last opened first.
\<close>

definition session_of :: "device \<Rightarrow> handle list" where
  "session_of d =
     (case dp_open_live d of
        Some newhandle \<Rightarrow> [\<lparr>content = newhandle, devicename = name d\<rparr>]
      | None \<Rightarrow> [])"

definition sessions_of :: "device list \<Rightarrow> handle list" where
  "sessions_of ds = rev (concat (map session_of ds))"



subsection \<open>Example inputs\<close>

text \<open>
  Devices with the answers of the collaborators: two that open and can be waited on,
  one that does not open, one whose local address lookup fails, one that opens but
  has no descriptor to wait on.
\<close>

definition ex_dev :: "string \<Rightarrow> bool \<Rightarrow> nat option \<Rightarrow> int \<Rightarrow> device" where
  "ex_dev nm gl op fd =
     \<lparr>name = nm, getLocal = gl, dp_open_live = op, dp_setnonblock = 0,
      pcap_get_selectable_fd = fd\<rparr>"

definition eth0 :: device where
  "eth0 = ex_dev ''eth0'' True (Some 1) 5"

definition eth1 :: device where
  "eth1 = ex_dev ''eth1'' True None 0"

definition eth2 :: device where
  "eth2 = ex_dev ''eth2'' True (Some 2) 6"

definition wlan0 :: device where
  "wlan0 = ex_dev ''wlan0'' False (Some 3) 7"

definition tun0 :: device where
  "tun0 = ex_dev ''tun0'' True (Some 4) (-1)"

text \<open>A privileged start on the given devices; the pipe is the pair of descriptors 3 and 4.\<close>

definition ex_env :: "device list \<Rightarrow> environment" where
  "ex_env ds =
     \<lparr>devices = ds, promisc = 0, linux = True, geteuid = 0, readlink = 0, caps1 = 0,
      pipe_res = Some (3, 4), fcntl0 = 0, fcntl1 = 0\<rparr>"

text \<open>
  One pass of the loop at clock reading \<open>t\<close> in which every session answers \<open>r\<close> and
  \<^verbatim>\<open>select\<close>, if reached, answers \<open>sel\<close>.
\<close>

definition ex_pass :: "int \<Rightarrow> int \<Rightarrow> int set option \<Rightarrow> iteration" where
  "ex_pass r t sel =
     \<lparr>dp_dispatch = (\<lambda>h. r), dp_geterr = (\<lambda>h. ''error''), now = t, select_res = sel\<rparr>"

text \<open>
  The state at the entry of the loop after a start on \<open>eth0\<close> and \<open>eth2\<close> (the
  registry holds the pipe and both sessions), and after a start on \<open>eth0\<close>, \<open>tun0\<close>
  and \<open>eth2\<close> (the fallback: the registry is empty).
\<close>

definition ex_running :: state where
  "ex_running =
     \<lparr>self_pipe = (3, 4), last_refresh_time = 0, pc_loop_fd_set = {},
      pc_loop_fd_list = [3, 5, 6], pc_loop_use_select = True, tracemode = False,
      refreshdelay = 1, DEBUG = False, time_t_bits = 64,
      handles = [\<lparr>content = 2, devicename = ''eth2''\<rparr>, \<lparr>content = 1, devicename = ''eth0''\<rparr>],
      trace =
        [InitUi, GetLocal ''eth0'', DpOpenLive ''eth0'' 0, DpAddcb 1 dp_packet_ip,
         DpAddcb 1 dp_packet_ip6, DpAddcb 1 dp_packet_tcp, DpAddcb 1 dp_packet_udp,
         DpSetnonblock 1, GetSelectableFd 1, GetLocal ''eth2'', DpOpenLive ''eth2'' 0,
         DpAddcb 2 dp_packet_ip, DpAddcb 2 dp_packet_ip6, DpAddcb 2 dp_packet_tcp,
         DpAddcb 2 dp_packet_udp, DpSetnonblock 2, GetSelectableFd 2, Signal]\<rparr>"

definition ex_fallback :: state where
  "ex_fallback =
     \<lparr>self_pipe = (3, 4), last_refresh_time = 0, pc_loop_fd_set = {},
      pc_loop_fd_list = [], pc_loop_use_select = False, tracemode = False,
      refreshdelay = 1, DEBUG = False, time_t_bits = 64,
      handles = [\<lparr>content = 2, devicename = ''eth2''\<rparr>, \<lparr>content = 4, devicename = ''tun0''\<rparr>,
                 \<lparr>content = 1, devicename = ''eth0''\<rparr>],
      trace =
        [InitUi, GetLocal ''eth0'', DpOpenLive ''eth0'' 0, DpAddcb 1 dp_packet_ip,
         DpAddcb 1 dp_packet_ip6, DpAddcb 1 dp_packet_tcp, DpAddcb 1 dp_packet_udp,
         DpSetnonblock 1, GetSelectableFd 1, GetLocal ''tun0'', DpOpenLive ''tun0'' 0,
         DpAddcb 4 dp_packet_ip, DpAddcb 4 dp_packet_ip6, DpAddcb 4 dp_packet_tcp,
         DpAddcb 4 dp_packet_udp, DpSetnonblock 4, GetSelectableFd 4,
         Stderr (''failed to get selectable_fd for tun0'' @ endl),
         GetLocal ''eth2'', DpOpenLive ''eth2'' 0, DpAddcb 2 dp_packet_ip,
         DpAddcb 2 dp_packet_ip6, DpAddcb 2 dp_packet_tcp, DpAddcb 2 dp_packet_udp,
         DpSetnonblock 2, Signal]\<rparr>"

text \<open>
  The state at the entry of the loop after a start on \<open>eth0\<close>, \<open>eth1\<close> and \<open>eth2\<close>:
  that of \<open>ex_running\<close>, with the attempt on \<open>eth1\<close> and its notice in the trace.
\<close>

definition ex_three :: state where
  "ex_three =
     ex_running\<lparr>trace :=
       [InitUi, GetLocal ''eth0'', DpOpenLive ''eth0'' 0, DpAddcb 1 dp_packet_ip,
        DpAddcb 1 dp_packet_ip6, DpAddcb 1 dp_packet_tcp, DpAddcb 1 dp_packet_udp,
        DpSetnonblock 1, GetSelectableFd 1, GetLocal ''eth1'', DpOpenLive ''eth1'' 0,
        skip_notice eth1, GetLocal ''eth2'', DpOpenLive ''eth2'' 0,
        DpAddcb 2 dp_packet_ip, DpAddcb 2 dp_packet_ip6, DpAddcb 2 dp_packet_tcp,
        DpAddcb 2 dp_packet_udp, DpSetnonblock 2, GetSelectableFd 2, Signal]\<rparr>"

text \<open>
  The state in which the loop is left when, from \<open>ex_running\<close>, the first pass finds
  no packet at clock reading 10 and \<open>select\<close> reports the wait end of the pipe.
\<close>

definition ex_stopped :: state where
  "ex_stopped =
     ex_running\<lparr>last_refresh_time := 10, pc_loop_fd_set := {3},
       trace := trace ex_running
         @ [DpDispatch 2, DpDispatch 1, UiTick, DoRefresh, Select 7 {3, 5, 6} 1]\<rparr>"


text \<open>
  The state at the entry of the loop after a start on \<open>eth0\<close> and \<open>eth2\<close> with the
  option \<^verbatim>\<open>-d 1000000000\<close>, in a build whose \<^verbatim>\<open>time_t\<close> has 32 bits.
\<close>

definition ex_wrap :: state where
  "ex_wrap = ex_running\<lparr>refreshdelay := 1000000000, time_t_bits := 32\<rparr>"

section \<open>Properties\<close>

subsection \<open>Evaluation of the examples\<close>

lemmas run_defs = main_def startup_def privilege_guard_def create_self_pipe_def
  open_sessions_def open_device_def forceExit_def loop_body_def refresh_check_def
  wait_for_next_trigger_def clean_up_def quit_cb_def emit_def endl_def
  EXIT_FAILURE_def EXIT_SUCCESS_def CAP_NET_ADMIN_def CAP_NET_RAW_def Let_def
  skip_notice_def session_of_def sessions_of_def

lemmas ex_defs = ex_dev_def eth0_def eth1_def eth2_def wlan0_def tun0_def ex_env_def
  ex_pass_def initial_def ex_running_def ex_fallback_def

lemma ex_running_reached:
  "startup (ex_env [eth0, eth2]) (initial False 1 False 64) = Inr ex_running"
  by code_simp

lemma ex_fallback_reached:
  "startup (ex_env [eth0, tun0, eth2]) (initial False 1 False 64) = Inr ex_fallback"
  by code_simp

lemma ex_three_reached:
  "startup (ex_env [eth0, eth1, eth2]) (initial False 1 False 64) = Inr ex_three"
  by code_simp

lemma ex_wrap_reached:
  "startup (ex_env [eth0, eth2]) (initial False 1000000000 False 32) = Inr ex_wrap"
  by code_simp

subsection \<open>What a recorded call changes\<close>

lemma emit_simps [simp]:
  "trace (emit e s) = trace s @ [e]"
  "self_pipe (emit e s) = self_pipe s"
  "last_refresh_time (emit e s) = last_refresh_time s"
  "pc_loop_fd_set (emit e s) = pc_loop_fd_set s"
  "pc_loop_fd_list (emit e s) = pc_loop_fd_list s"
  "pc_loop_use_select (emit e s) = pc_loop_use_select s"
  "tracemode (emit e s) = tracemode s"
  "refreshdelay (emit e s) = refreshdelay s"
  "DEBUG (emit e s) = DEBUG s"
  "time_t_bits (emit e s) = time_t_bits s"
  "handles (emit e s) = handles s"
  by (simp_all add: emit_def)

subsection \<open>The fatal exit and the loop over the devices\<close>

lemma forceExit_code [simp]:
  "fst (forceExit b m s) = (if b then EXIT_SUCCESS else EXIT_FAILURE)"
  by (simp add: forceExit_def Let_def)

lemma forceExit_trace [simp]:
  "trace (snd (forceExit b m s))
     = trace s @ (if \<not> tracemode s \<and> \<not> DEBUG s then [ExitUi] else []) @ [Stderr (m @ endl)]"
  by (simp add: forceExit_def Let_def)

lemma forceExit_eq:
  "forceExit b m s = (c, s') \<longleftrightarrow>
     c = (if b then EXIT_SUCCESS else EXIT_FAILURE) \<and> s' = snd (forceExit b m s)"
  by (auto simp: forceExit_def Let_def)

lemma open_device_Inl:
  "open_device prom d (n, f, s) = Inl e \<longleftrightarrow>
     \<not> getLocal d \<and>
     e = forceExit False ''getifaddrs failed while establishing local IP.'' (emit (GetLocal (name d)) s)"
  by (auto simp: open_device_def Let_def split: option.splits)

lemma open_device_Inr:
  assumes "open_device prom d (n, f, s) = Inr (n', f', s')"
  shows "getLocal d"
    and "n' = n + 1"
    and "f' = f + (if dp_open_live d = None then 1 else 0)"
    and "handles s' = session_of d @ handles s"
    and "pc_loop_use_select s' =
           (pc_loop_use_select s \<and> (dp_open_live d = None \<or> pcap_get_selectable_fd d \<noteq> -1))"
    and "pc_loop_fd_list s' =
           (if pc_loop_use_select s \<and> dp_open_live d \<noteq> None then
              (if pcap_get_selectable_fd d \<noteq> -1 then pc_loop_fd_list s @ [pcap_get_selectable_fd d]
               else [])
            else pc_loop_fd_list s)"
    and "self_pipe s' = self_pipe s"
    and "tracemode s' = tracemode s"
    and "DEBUG s' = DEBUG s"
    and "refreshdelay s' = refreshdelay s"
    and "last_refresh_time s' = last_refresh_time s"
  using assms
  by (auto simp: open_device_def Let_def session_of_def split: option.splits if_splits)

lemma open_device_total:
  "getLocal d \<Longrightarrow> \<exists>c'. open_device prom d c = Inr c'"
  by (auto simp: open_device_def Let_def split: option.splits prod.splits)

lemma open_device_quiet:
  assumes "open_device prom d (n, f, s) = Inr (n', f', s')"
    and "\<And>e. \<not> is_teardown e \<Longrightarrow> \<not> is_select e \<Longrightarrow> \<not> p e"
  shows "filter p (trace s') = filter p (trace s)"
  using assms
  by (auto simp: open_device_def Let_def split: option.splits if_splits)

lemma not_skip_simps [simp]:
  "\<not> prefix ''Error opening handler for device '' (''Error putting libpcap in nonblocking mode'' @ x)"
  "\<not> prefix ''Error opening handler for device '' (''failed to get selectable_fd for '' @ x)"
  "\<not> prefix ''Error opening handler for device '' (''Error opening pcap handlers for all devices.'' @ x)"
  "\<not> prefix ''Error opening handler for device '' (''getifaddrs failed while establishing local IP.'' @ x)"
  "prefix ''Error opening handler for device '' (''Error opening handler for device '' @ x)"
  by simp_all

lemma open_device_skips:
  assumes "open_device prom d (n, f, s) = Inr (n', f', s')"
  shows "filter is_skip_notice (trace s')
           = filter is_skip_notice (trace s) @ (if dp_open_live d = None then [skip_notice d] else [])"
  using assms
  by (auto simp: open_device_def Let_def skip_notice_def split: option.splits if_splits)


lemma rev_session_of [simp]: "rev (session_of d) = session_of d"
  by (simp add: session_of_def split: option.splits)

lemma sessions_of_simps [simp]:
  "sessions_of [] = []"
  "sessions_of (d # ds) = sessions_of ds @ session_of d"
  by (simp_all add: sessions_of_def)

lemma open_devices_Inr:
  assumes "open_devices prom ds (n, f, s) = Inr (n', f', s')"
  shows "(\<forall>d\<in>set ds. getLocal d)
    \<and> n' = n + int (length ds)
    \<and> f' = f + int (length (filter (\<lambda>d. dp_open_live d = None) ds))
    \<and> handles s' = sessions_of ds @ handles s
    \<and> filter is_skip_notice (trace s')
         = filter is_skip_notice (trace s) @ map skip_notice (filter (\<lambda>d. dp_open_live d = None) ds)
    \<and> self_pipe s' = self_pipe s \<and> tracemode s' = tracemode s \<and> DEBUG s' = DEBUG s
    \<and> refreshdelay s' = refreshdelay s \<and> last_refresh_time s' = last_refresh_time s"
  using assms
proof (induction ds arbitrary: n f s)
  case Nil
  then show ?case by simp
next
  case (Cons d ds)
  from Cons.prems obtain n1 f1 s1 where
    step: "open_device prom d (n, f, s) = Inr (n1, f1, s1)"
    and rest: "open_devices prom ds (n1, f1, s1) = Inr (n', f', s')"
    by (auto split: sum.splits)
  note a = open_device_Inr [OF step] open_device_skips [OF step]
  note b = Cons.IH [OF rest]
  show ?case using a b by simp
qed

lemma open_devices_quiet:
  assumes "open_devices prom ds (n, f, s) = Inr (n', f', s')"
    and "\<And>e. \<not> is_teardown e \<Longrightarrow> \<not> is_select e \<Longrightarrow> \<not> p e"
  shows "filter p (trace s') = filter p (trace s)"
  using assms(1)
proof (induction ds arbitrary: n f s)
  case Nil
  then show ?case by simp
next
  case (Cons d ds)
  from Cons.prems obtain n1 f1 s1 where
    step: "open_device prom d (n, f, s) = Inr (n1, f1, s1)"
    and rest: "open_devices prom ds (n1, f1, s1) = Inr (n', f', s')"
    by (auto split: sum.splits)
  show ?case
    using open_device_quiet [OF step assms(2)] Cons.IH [OF rest] by simp
qed

lemma open_devices_select:
  assumes "open_devices prom ds (n, f, s) = Inr (n', f', s')"
  shows "pc_loop_use_select s' =
           (pc_loop_use_select s \<and>
            (\<forall>d\<in>set ds. dp_open_live d = None \<or> pcap_get_selectable_fd d \<noteq> -1))
    \<and> (\<not> pc_loop_use_select s \<longrightarrow> pc_loop_fd_list s' = pc_loop_fd_list s)
    \<and> (pc_loop_use_select s \<longrightarrow> \<not> pc_loop_use_select s' \<longrightarrow> pc_loop_fd_list s' = [])"
  using assms
proof (induction ds arbitrary: n f s)
  case Nil
  then show ?case by simp
next
  case (Cons d ds)
  from Cons.prems obtain n1 f1 s1 where
    step: "open_device prom d (n, f, s) = Inr (n1, f1, s1)"
    and rest: "open_devices prom ds (n1, f1, s1) = Inr (n', f', s')"
    by (auto split: sum.splits)
  note a = open_device_Inr(5,6) [OF step]
  note b = Cons.IH [OF rest]
  show ?case
  proof (cases "pc_loop_use_select s1")
    case True
    then show ?thesis using a b by auto
  next
    case False
    then show ?thesis using a b by (auto split: if_splits)
  qed
qed

lemma open_devices_total:
  "\<forall>d\<in>set ds. getLocal d \<Longrightarrow> \<exists>c'. open_devices prom ds c = Inr c'"
proof (induction ds arbitrary: c)
  case Nil
  show ?case by (simp del: split_paired_Ex)
next
  case (Cons d ds)
  then obtain c1 where "open_device prom d c = Inr c1"
    using open_device_total [of d prom c] by auto
  then show ?case using Cons by simp
qed

lemma open_devices_getLocal_fails:
  assumes "\<exists>d\<in>set ds. \<not> getLocal d"
  shows "\<exists>s'. open_devices prom ds (n, f, s) = Inl (EXIT_FAILURE, s')
          \<and> last (trace s') = Stderr (''getifaddrs failed while establishing local IP.'' @ endl)"
  using assms
proof (induction ds arbitrary: n f s)
  case Nil
  then show ?case by simp
next
  case (Cons d ds)
  show ?case
  proof (cases "getLocal d")
    case False
    then have "open_device prom d (n, f, s)
        = Inl (forceExit False ''getifaddrs failed while establishing local IP.'' (emit (GetLocal (name d)) s))"
      by (simp add: open_device_Inl)
    then show ?thesis
      by (simp add: forceExit_def Let_def)
  next
    case True
    then obtain c1 where c1: "open_device prom d (n, f, s) = Inr c1"
      using open_device_total by blast
    obtain n1 f1 s1 where "c1 = (n1, f1, s1)" by (cases c1) auto
    with c1 True Cons show ?thesis by auto
  qed
qed

lemma all_failed_iff:
  "int (length (filter P xs)) = int (length xs) \<longleftrightarrow> (\<forall>x\<in>set xs. P x)"
proof (induction xs)
  case Nil
  then show ?case by simp
next
  case (Cons x xs)
  have le: "length (filter P xs) \<le> length xs" by simp
  show ?case
  proof (cases "P x")
    case True
    then show ?thesis using Cons by simp
  next
    case False
    then show ?thesis using le by (simp del: length_filter_le)
  qed
qed

lemma open_sessions_cases:
  assumes "\<forall>d\<in>set ds. getLocal d"
  obtains n' f' s' where "open_devices prom ds (0, 0, s) = Inr (n', f', s')"
    and "n' = int (length ds)"
    and "f' = int (length (filter (\<lambda>d. dp_open_live d = None) ds))"
proof -
  obtain c' where c: "open_devices prom ds (0, 0, s) = Inr c'"
    using open_devices_total [OF assms] by blast
  obtain n' f' s' where "c' = (n', f', s')" by (cases c') auto
  with c have *: "open_devices prom ds (0, 0, s) = Inr (n', f', s')" by simp
  from open_devices_Inr [OF *] have "n' = int (length ds)"
    "f' = int (length (filter (\<lambda>d. dp_open_live d = None) ds))" by simp_all
  with * that show thesis by blast
qed

lemma open_sessions_getLocal_fails:
  assumes "\<exists>d\<in>set ds. \<not> getLocal d"
  shows "\<exists>s'. open_sessions prom ds s = Inl (EXIT_FAILURE, s')
          \<and> last (trace s') = Stderr (''getifaddrs failed while establishing local IP.'' @ endl)"
proof -
  obtain s' where "open_devices prom ds (0, 0, s) = Inl (EXIT_FAILURE, s')"
    and "last (trace s') = Stderr (''getifaddrs failed while establishing local IP.'' @ endl)"
    using open_devices_getLocal_fails [OF assms, of prom 0 0 s] by blast
  then show ?thesis by (simp add: open_sessions_def)
qed

lemma privilege_guard_Inl:
  "privilege_guard env s = Inl (c, s') \<Longrightarrow>
     c = EXIT_FAILURE \<and> handles s' = handles s \<and> filter is_open (trace s') = filter is_open (trace s)"
  by (auto simp: privilege_guard_def forceExit_def Let_def split: if_splits)

lemma privilege_guard_Inr:
  "privilege_guard env s = Inr s' \<Longrightarrow> s' = s"
  by (auto simp: privilege_guard_def split: if_splits)

lemma open_devices_Inl:
  "open_devices prom ds (n, f, s) = Inl (c, s') \<Longrightarrow> c = EXIT_FAILURE"
proof (induction ds arbitrary: n f s)
  case Nil
  then show ?case by simp
next
  case (Cons d ds)
  show ?case
  proof (cases "open_device prom d (n, f, s)")
    case (Inl e)
    with Cons.prems show ?thesis
      by (auto simp: open_device_Inl forceExit_def Let_def)
  next
    case (Inr c1)
    obtain n1 f1 s1 where "c1 = (n1, f1, s1)" by (cases c1) auto
    with Inr Cons show ?thesis by auto
  qed
qed

lemma open_sessions_Inl:
  "open_sessions prom ds s = Inl (c, s') \<Longrightarrow> c = EXIT_FAILURE"
  by (auto simp: open_sessions_def forceExit_def Let_def
           split: sum.splits prod.splits if_splits dest: open_devices_Inl)

lemma startup_Inr:
  assumes "startup env s = Inr s'"
  shows "\<exists>s1 s2. privilege_guard env s1 = Inr s1
           \<and> s1 = (if \<not> tracemode s \<and> \<not> DEBUG s then emit InitUi s else s)
           \<and> open_sessions (promisc env) (devices env)
                (s1\<lparr>self_pipe := create_self_pipe (pipe_res env) (fcntl0 env) (fcntl1 env),
                    pc_loop_fd_list := pc_loop_fd_list s1
                      @ [fst (create_self_pipe (pipe_res env) (fcntl0 env) (fcntl1 env))]\<rparr>) = Inr s2
           \<and> s' = emit Signal s2"
  using assms unfolding startup_def Let_def
  by (auto split: sum.splits if_splits dest!: privilege_guard_Inr)

lemma startup_Inl:
  assumes "startup env s = Inl (c, s')"
  shows "c = EXIT_FAILURE"
  using assms unfolding startup_def Let_def
  by (auto simp: forceExit_eq split: sum.splits if_splits
           dest: privilege_guard_Inl open_sessions_Inl)

lemma startup_getLocal_fails:
  assumes "\<exists>d\<in>set (devices env). \<not> getLocal d"
  shows "\<exists>s'. startup env s = Inl (EXIT_FAILURE, s')"
proof (cases "startup env s")
  case (Inl e)
  then show ?thesis using startup_Inl [of env s "fst e" "snd e"] by (cases e) auto
next
  case (Inr s')
  from startup_Inr [OF Inr] obtain s1 s2 where
    "open_sessions (promisc env) (devices env) s1 = Inr s2" by blast
  with open_sessions_getLocal_fails [OF assms, of "promisc env" s1]
  show ?thesis by simp
qed

lemma cap_bit: "(drop_bit n (w :: 32 word) AND 1) \<noteq> 1 \<longleftrightarrow> \<not> bit w n"
  by (simp add: bit_iff_odd_drop_bit and_one_eq odd_iff_mod_2_eq_one)

lemma privilege_guard_fails:
  assumes "geteuid env \<noteq> 0"
    and "linux env \<longrightarrow> readlink env = -1
           \<or> \<not> (bit (caps1 env) CAP_NET_ADMIN \<and> bit (caps1 env) CAP_NET_RAW)"
  shows "\<exists>s'. privilege_guard env s = Inl (EXIT_FAILURE, s')
           \<and> filter is_open (trace s') = filter is_open (trace s) \<and> handles s' = handles s"
  using assms
  by (auto simp: privilege_guard_def cap_bit forceExit_def Let_def)

lemma open_sessions_Inr:
  assumes "open_sessions prom ds s = Inr s'"
  shows "(\<exists>d\<in>set ds. dp_open_live d \<noteq> None)
    \<and> handles s' = sessions_of ds @ handles s
    \<and> filter is_skip_notice (trace s')
         = filter is_skip_notice (trace s) @ map skip_notice (filter (\<lambda>d. dp_open_live d = None) ds)"
proof -
  obtain n f where d: "open_devices prom ds (0, 0, s) = Inr (n, f, s')" and ne: "n \<noteq> f"
    using assms by (auto simp: open_sessions_def split: sum.splits prod.splits if_splits)
  note facts = open_devices_Inr [OF d]
  have "int (length (filter (\<lambda>d. dp_open_live d = None) ds)) \<noteq> int (length ds)"
    using facts ne by simp
  then have "\<not> (\<forall>d\<in>set ds. dp_open_live d = None)"
    using all_failed_iff [of "\<lambda>d. dp_open_live d = None" ds] by simp
  then show ?thesis using facts by simp
qed

lemma startup_sessions:
  assumes "startup env s = Inr s'"
  shows "(\<exists>d\<in>set (devices env). dp_open_live d \<noteq> None)
    \<and> handles s' = sessions_of (devices env) @ handles s
    \<and> filter is_skip_notice (trace s')
         = filter is_skip_notice (trace s)
           @ map skip_notice (filter (\<lambda>d. dp_open_live d = None) (devices env))"
proof -
  obtain s1 s2 where s1: "s1 = (if \<not> tracemode s \<and> \<not> DEBUG s then emit InitUi s else s)"
    and o: "open_sessions (promisc env) (devices env)
                (s1\<lparr>self_pipe := create_self_pipe (pipe_res env) (fcntl0 env) (fcntl1 env),
                    pc_loop_fd_list := pc_loop_fd_list s1
                      @ [fst (create_self_pipe (pipe_res env) (fcntl0 env) (fcntl1 env))]\<rparr>) = Inr s2"
    and s': "s' = emit Signal s2"
    using startup_Inr [OF assms(1)] by blast
  show ?thesis
    using open_sessions_Inr [OF o] by (simp add: s' s1)
qed

lemma startup_all_fail:
  assumes "\<forall>d\<in>set (devices env). dp_open_live d = None"
  shows "\<exists>s'. startup env s = Inl (EXIT_FAILURE, s')"
proof (cases "startup env s")
  case (Inl e)
  then show ?thesis using startup_Inl [of env s "fst e" "snd e"] by (cases e) auto
next
  case (Inr s')
  have "\<exists>d\<in>set (devices env). dp_open_live d \<noteq> None"
    using startup_sessions [OF Inr] by (rule conjunct1)
  with assms have False by auto
  then show ?thesis ..
qed

subsection \<open>The passes of the loop\<close>

lemma dispatch_pass_select_res [simp]:
  "dispatch_pass (inp\<lparr>select_res := r\<rparr>) hs c = dispatch_pass inp hs c"
proof (induction hs arbitrary: c)
  case Nil
  then show ?case by simp
next
  case (Cons h hs)
  obtain b s where "c = (b, s)" by (cases c) auto
  then show ?case using Cons by (simp add: Let_def)
qed

lemma dispatch_pass_read:
  "fst (dispatch_pass inp hs (b, s)) = (b \<or> (\<exists>h\<in>set hs. 0 < dp_dispatch inp h))"
proof (induction hs arbitrary: b s)
  case Nil
  then show ?case by simp
next
  case (Cons h hs)
  show ?case by (auto simp: Cons Let_def)
qed

text \<open>What one session adds to the trace during the dispatch pass.\<close>

lemma dispatch_pass_step:
  "\<exists>b' es. dispatch_pass inp (h # hs) (b, s) = dispatch_pass inp hs (b', s\<lparr>trace := trace s @ es\<rparr>)
      \<and> (\<forall>e\<in>set es. \<not> is_teardown e \<and> \<not> is_select e \<and> \<not> is_refresh e)
      \<and> length (filter is_dispatch_error es) = (if dp_dispatch inp h < 0 then 1 else 0)"
proof -
  have I: "\<exists>b' es. dispatch_pass inp (h # hs) (b, s) = dispatch_pass inp hs (b', s\<lparr>trace := trace s @ es\<rparr>)
      \<and> (\<forall>e\<in>set es. \<not> is_teardown e \<and> \<not> is_select e \<and> \<not> is_refresh e)
      \<and> length (filter is_dispatch_error es) = (if dp_dispatch inp h < 0 then 1 else 0)"
    if "dispatch_pass inp (h # hs) (b, s) = dispatch_pass inp hs (b', s\<lparr>trace := trace s @ es\<rparr>)"
      and "\<forall>e\<in>set es. \<not> is_teardown e \<and> \<not> is_select e \<and> \<not> is_refresh e"
      and "length (filter is_dispatch_error es) = (if dp_dispatch inp h < 0 then 1 else 0)"
    for b' es
    using that by blast
  consider "dp_dispatch inp h = -1" | "dp_dispatch inp h \<noteq> -1" "dp_dispatch inp h < 0"
    | "0 < dp_dispatch inp h" | "dp_dispatch inp h = 0"
    by linarith
  then show ?thesis
  proof cases
    case 1
    then have eq: "dispatch_pass inp (h # hs) (b, s) = dispatch_pass inp hs
        (b, s\<lparr>trace := trace s @ [DpDispatch (content h),
                Stderr (''Error dispatching for device '' @ devicename h @ '': ''
                        @ dp_geterr inp h @ endl)]\<rparr>)"
      by (simp add: Let_def emit_def)
    have neg: "(dp_dispatch inp h < 0) = True" using 1 by simp
    show ?thesis by (rule I [OF eq]) (simp_all add: neg)
  next
    case 2
    then have eq: "dispatch_pass inp (h # hs) (b, s) = dispatch_pass inp hs
        (b, s\<lparr>trace := trace s @ [DpDispatch (content h),
                StderrNum (''Error dispatching for device '' @ devicename h @ '': '')
                  (dp_dispatch inp h)]\<rparr>)"
      by (simp add: Let_def emit_def)
    have neg: "(dp_dispatch inp h < 0) = True" using 2 by simp
    show ?thesis by (rule I [OF eq]) (simp_all add: neg)
  next
    case 3
    then have eq: "dispatch_pass inp (h # hs) (b, s) = dispatch_pass inp hs
        (True, s\<lparr>trace := trace s @ [DpDispatch (content h)]\<rparr>)"
      by (simp add: Let_def emit_def)
    have neg: "(dp_dispatch inp h < 0) = False" using 3 by simp
    show ?thesis by (rule I [OF eq]) (simp_all add: neg)
  next
    case 4
    then have eq: "dispatch_pass inp (h # hs) (b, s) = dispatch_pass inp hs
        (b, s\<lparr>trace := trace s @ [DpDispatch (content h)]\<rparr>)"
      by (simp add: Let_def emit_def)
    have neg: "(dp_dispatch inp h < 0) = False" using 4 by simp
    show ?thesis by (rule I [OF eq]) (simp_all add: neg)
  qed
qed

lemma dispatch_pass_trace:
  "\<exists>es. snd (dispatch_pass inp hs (b, s)) = s\<lparr>trace := trace s @ es\<rparr>
      \<and> (\<forall>e\<in>set es. \<not> is_teardown e \<and> \<not> is_select e \<and> \<not> is_refresh e)
      \<and> length (filter is_dispatch_error es)
          = length (filter (\<lambda>h. dp_dispatch inp h < 0) hs)"
proof (induction hs arbitrary: b s)
  case Nil
  show ?case by (rule exI [of _ "[]"]) simp
next
  case (Cons h hs)
  obtain b' es where step: "dispatch_pass inp (h # hs) (b, s)
        = dispatch_pass inp hs (b', s\<lparr>trace := trace s @ es\<rparr>)"
    and q: "\<forall>e\<in>set es. \<not> is_teardown e \<and> \<not> is_select e \<and> \<not> is_refresh e"
    and n: "length (filter is_dispatch_error es) = (if dp_dispatch inp h < 0 then 1 else 0)"
    using dispatch_pass_step [of inp h hs b s] by blast
  obtain es' where rest: "snd (dispatch_pass inp hs (b', s\<lparr>trace := trace s @ es\<rparr>))
        = s\<lparr>trace := trace s @ es @ es'\<rparr>"
    and q': "\<forall>e\<in>set es'. \<not> is_teardown e \<and> \<not> is_select e \<and> \<not> is_refresh e"
    and n': "length (filter is_dispatch_error es')
          = length (filter (\<lambda>h. dp_dispatch inp h < 0) hs)"
    using Cons [of b' "s\<lparr>trace := trace s @ es\<rparr>"] by auto
  show ?case
  proof (intro exI conjI)
    show "snd (dispatch_pass inp (h # hs) (b, s)) = s\<lparr>trace := trace s @ (es @ es')\<rparr>"
      using step rest by simp
    show "\<forall>e\<in>set (es @ es'). \<not> is_teardown e \<and> \<not> is_select e \<and> \<not> is_refresh e"
      using q q' by auto
    show "length (filter is_dispatch_error (es @ es'))
          = length (filter (\<lambda>h. dp_dispatch inp h < 0) (h # hs))"
      using n n' by simp
  qed
qed

lemma refresh_check_eq:
  "refresh_check t s =
     (if time_t_sum (time_t_bits s) (last_refresh_time s) (refreshdelay s) \<le> t then
        s\<lparr>last_refresh_time := t,
          trace := trace s @ (if \<not> DEBUG s \<and> \<not> tracemode s then [UiTick] else []) @ [DoRefresh]\<rparr>
      else s)"
  by (simp add: refresh_check_def Let_def emit_def)

lemma wait_fallback:
  "\<not> pc_loop_use_select s \<Longrightarrow>
     wait_for_next_trigger sel s = (True, s\<lparr>trace := trace s @ [Usleep 1000]\<rparr>)"
  by (simp add: wait_for_next_trigger_def emit_def)

lemma wait_select:
  assumes "pc_loop_use_select s"
  shows "\<exists>nfds fdset fs. wait_for_next_trigger sel s =
           (\<not> (\<exists>r. sel = Some r \<and> fst (self_pipe s) \<in> r),
            s\<lparr>pc_loop_fd_set := fs, trace := trace s @ [Select nfds fdset (refreshdelay s)]\<rparr>)"
proof -
  obtain nfds fdset where f: "fd_loop (pc_loop_fd_list s) (0, {}) = (nfds, fdset)"
    by (cases "fd_loop (pc_loop_fd_list s) (0, {})") auto
  show ?thesis
  proof (cases sel)
    case None
    then have "wait_for_next_trigger sel s =
           (\<not> (\<exists>r. sel = Some r \<and> fst (self_pipe s) \<in> r),
            s\<lparr>pc_loop_fd_set := fdset, trace := trace s @ [Select nfds fdset (refreshdelay s)]\<rparr>)"
      using assms f by (simp add: wait_for_next_trigger_def emit_def)
    then show ?thesis by blast
  next
    case (Some r)
    then have "wait_for_next_trigger sel s =
           (\<not> (\<exists>r. sel = Some r \<and> fst (self_pipe s) \<in> r),
            s\<lparr>pc_loop_fd_set := r, trace := trace s @ [Select nfds fdset (refreshdelay s)]\<rparr>)"
      using assms f by (simp add: wait_for_next_trigger_def emit_def Let_def)
    then show ?thesis by blast
  qed
qed

text \<open>
  One pass: whether the loop goes on, which variables the pass leaves alone, and what
  it adds to the trace.
\<close>

lemma loop_body_pass:
  "\<exists>es fs. loop_body inp s =
      ((\<exists>h\<in>set (handles s). 0 < dp_dispatch inp h)
         \<or> \<not> (pc_loop_use_select s \<and> (\<exists>r. select_res inp = Some r \<and> fst (self_pipe s) \<in> r)),
       s\<lparr>last_refresh_time :=
            (if time_t_sum (time_t_bits s) (last_refresh_time s) (refreshdelay s) \<le> now inp then now inp else last_refresh_time s),
         pc_loop_fd_set := fs, trace := trace s @ es\<rparr>)
    \<and> (\<forall>e\<in>set es. \<not> is_teardown e)
    \<and> (\<not> pc_loop_use_select s \<longrightarrow> (\<forall>e\<in>set es. \<not> is_select e))
    \<and> ((\<exists>h\<in>set (handles s). 0 < dp_dispatch inp h) \<longrightarrow> (\<forall>e\<in>set es. \<not> is_select e))
    \<and> length (filter is_dispatch_error es)
        = length (filter (\<lambda>h. dp_dispatch inp h < 0) (handles s))
    \<and> length (filter is_refresh es)
        = (if time_t_sum (time_t_bits s) (last_refresh_time s) (refreshdelay s) \<le> now inp then 1 else 0)"
proof -
  let ?P = "\<exists>h\<in>set (handles s). 0 < dp_dispatch inp h"
  obtain es where d: "snd (dispatch_pass inp (handles s) (False, s)) = s\<lparr>trace := trace s @ es\<rparr>"
    and q: "\<forall>e\<in>set es. \<not> is_teardown e \<and> \<not> is_select e \<and> \<not> is_refresh e"
    and n: "length (filter is_dispatch_error es)
          = length (filter (\<lambda>h. dp_dispatch inp h < 0) (handles s))"
    using dispatch_pass_trace [of inp "handles s" False s] by blast
  have dp: "dispatch_pass inp (handles s) (False, s) = (?P, s\<lparr>trace := trace s @ es\<rparr>)"
    using d dispatch_pass_read [of inp "handles s" False s]
    by (cases "dispatch_pass inp (handles s) (False, s)") simp
  define s1 where "s1 = s\<lparr>trace := trace s @ es\<rparr>"
  define rs where "rs = (if \<not> DEBUG s \<and> \<not> tracemode s then [UiTick] else []) @ [DoRefresh]"
  define fire where "fire = (time_t_sum (time_t_bits s) (last_refresh_time s) (refreshdelay s) \<le> now inp)"
  define s2 where "s2 = refresh_check (now inp) s1"
  have s2: "s2 = s\<lparr>last_refresh_time := (if fire then now inp else last_refresh_time s),
                   trace := trace s @ es @ (if fire then rs else [])\<rparr>"
    by (simp add: s2_def s1_def refresh_check_eq rs_def fire_def)
  have rsq: "\<forall>e\<in>set rs. \<not> is_teardown e \<and> \<not> is_select e \<and> \<not> is_dispatch_error e"
    by (simp add: rs_def)
  have rsn: "length (filter is_refresh rs) = 1" by (simp add: rs_def)
  have esn: "filter is_refresh es = []" using q by (simp add: filter_empty_conv)
  have body: "loop_body inp s =
      (if \<not> ?P then
         (case wait_for_next_trigger (select_res inp) s2 of (r, s3) \<Rightarrow>
            if \<not> r then (False, s3) else (True, s3))
       else (True, s2))"
    by (simp add: loop_body_def dp s2_def s1_def Let_def)
  show ?thesis
  proof (cases ?P)
    case True
    have "loop_body inp s = (True, s2)" using True body by simp
    then have "loop_body inp s =
        (?P \<or> \<not> (pc_loop_use_select s \<and> (\<exists>r. select_res inp = Some r \<and> fst (self_pipe s) \<in> r)),
         s\<lparr>last_refresh_time :=
            (if time_t_sum (time_t_bits s) (last_refresh_time s) (refreshdelay s) \<le> now inp then now inp else last_refresh_time s),
           pc_loop_fd_set := pc_loop_fd_set s, trace := trace s @ (es @ (if fire then rs else []))\<rparr>)"
      using True by (simp add: s2 fire_def)
    moreover have "\<forall>e\<in>set (es @ (if fire then rs else [])). \<not> is_teardown e \<and> \<not> is_select e"
      using q rsq by auto
    moreover have "length (filter is_dispatch_error (es @ (if fire then rs else [])))
        = length (filter (\<lambda>h. dp_dispatch inp h < 0) (handles s))"
      using n rsq by (simp add: filter_empty_conv)
    moreover have "length (filter is_refresh (es @ (if fire then rs else [])))
        = (if time_t_sum (time_t_bits s) (last_refresh_time s) (refreshdelay s) \<le> now inp then 1 else 0)"
      using esn rsn by (simp add: fire_def)
    ultimately show ?thesis by blast
  next
    case False
    show ?thesis
    proof (cases "pc_loop_use_select s")
      case sel: True
      then have "pc_loop_use_select s2" by (simp add: s2)
      from wait_select [OF this, of "select_res inp"] obtain nfds fdset fs where
        w: "wait_for_next_trigger (select_res inp) s2 =
             (\<not> (\<exists>r. select_res inp = Some r \<and> fst (self_pipe s2) \<in> r),
              s2\<lparr>pc_loop_fd_set := fs, trace := trace s2 @ [Select nfds fdset (refreshdelay s2)]\<rparr>)"
        by blast
      let ?es = "es @ (if fire then rs else []) @ [Select nfds fdset (refreshdelay s)]"
      have "loop_body inp s =
        (?P \<or> \<not> (pc_loop_use_select s \<and> (\<exists>r. select_res inp = Some r \<and> fst (self_pipe s) \<in> r)),
         s\<lparr>last_refresh_time :=
            (if time_t_sum (time_t_bits s) (last_refresh_time s) (refreshdelay s) \<le> now inp then now inp else last_refresh_time s),
           pc_loop_fd_set := fs, trace := trace s @ ?es\<rparr>)"
        using False sel body w by (auto simp: s2 fire_def)
      moreover have "\<forall>e\<in>set ?es. \<not> is_teardown e"
        using q rsq by auto
      moreover have "length (filter is_dispatch_error ?es)
        = length (filter (\<lambda>h. dp_dispatch inp h < 0) (handles s))"
        using n rsq by (simp add: filter_empty_conv)
      moreover have "length (filter is_refresh ?es)
        = (if time_t_sum (time_t_bits s) (last_refresh_time s) (refreshdelay s) \<le> now inp then 1 else 0)"
        using esn rsn by (simp add: fire_def)
      ultimately show ?thesis using sel False by blast
    next
      case nsel: False
      then have "\<not> pc_loop_use_select s2" by (simp add: s2)
      note w = wait_fallback [OF this, of "select_res inp"]
      let ?es = "es @ (if fire then rs else []) @ [Usleep 1000]"
      have "loop_body inp s =
        (?P \<or> \<not> (pc_loop_use_select s \<and> (\<exists>r. select_res inp = Some r \<and> fst (self_pipe s) \<in> r)),
         s\<lparr>last_refresh_time :=
            (if time_t_sum (time_t_bits s) (last_refresh_time s) (refreshdelay s) \<le> now inp then now inp else last_refresh_time s),
           pc_loop_fd_set := pc_loop_fd_set s, trace := trace s @ ?es\<rparr>)"
        using False nsel body w by (auto simp: s2 fire_def)
      moreover have "\<forall>e\<in>set ?es. \<not> is_teardown e \<and> \<not> is_select e"
        using q rsq by auto
      moreover have "length (filter is_dispatch_error ?es)
        = length (filter (\<lambda>h. dp_dispatch inp h < 0) (handles s))"
        using n rsq by (simp add: filter_empty_conv)
      moreover have "length (filter is_refresh ?es)
        = (if time_t_sum (time_t_bits s) (last_refresh_time s) (refreshdelay s) \<le> now inp then 1 else 0)"
        using esn rsn by (simp add: fire_def)
      ultimately show ?thesis using False by blast
    qed
  qed
qed

lemma main_loop_run:
  "\<exists>es fs t. final (main_loop inps s)
        = s\<lparr>last_refresh_time := t, pc_loop_fd_set := fs, trace := trace s @ es\<rparr>
     \<and> (\<forall>e\<in>set es. \<not> is_teardown e)
     \<and> (\<not> pc_loop_use_select s \<longrightarrow>
          (\<forall>e\<in>set es. \<not> is_select e) \<and> (\<exists>s'. main_loop inps s = Looping s'))"
proof (induction inps arbitrary: s)
  case Nil
  have "final (main_loop [] s)
        = s\<lparr>last_refresh_time := last_refresh_time s, pc_loop_fd_set := pc_loop_fd_set s,
            trace := trace s @ []\<rparr>"
    by simp
  then show ?case by (intro exI conjI, assumption) simp_all
next
  case (Cons inp inps)
  obtain es fs r t where body: "loop_body inp s = (r, s\<lparr>last_refresh_time := t,
         pc_loop_fd_set := fs, trace := trace s @ es\<rparr>)"
    and r: "r = ((\<exists>h\<in>set (handles s). 0 < dp_dispatch inp h)
         \<or> \<not> (pc_loop_use_select s \<and> (\<exists>r. select_res inp = Some r \<and> fst (self_pipe s) \<in> r)))"
    and q: "\<forall>e\<in>set es. \<not> is_teardown e"
    and qs: "\<not> pc_loop_use_select s \<longrightarrow> (\<forall>e\<in>set es. \<not> is_select e)"
    using loop_body_pass [of inp s] by blast
  define s1 where "s1 = s\<lparr>last_refresh_time := t, pc_loop_fd_set := fs, trace := trace s @ es\<rparr>"
  have sel1: "pc_loop_use_select s1 = pc_loop_use_select s" by (simp add: s1_def)
  show ?case
  proof (cases r)
    case False
    then have sel: "pc_loop_use_select s" using r by blast
    have "final (main_loop (inp # inps) s)
        = s\<lparr>last_refresh_time := t, pc_loop_fd_set := fs, trace := trace s @ es\<rparr>"
      using False body by simp
    then show ?thesis using q sel by blast
  next
    case True
    then have step: "main_loop (inp # inps) s = main_loop inps s1"
      using body by (simp add: s1_def)
    obtain es' fs' t' where rest: "final (main_loop inps s1)
        = s1\<lparr>last_refresh_time := t', pc_loop_fd_set := fs', trace := trace s1 @ es'\<rparr>"
      and q': "\<forall>e\<in>set es'. \<not> is_teardown e"
      and qs': "\<not> pc_loop_use_select s1 \<longrightarrow>
          (\<forall>e\<in>set es'. \<not> is_select e) \<and> (\<exists>s'. main_loop inps s1 = Looping s')"
      using Cons [of s1] by blast
    have "final (main_loop (inp # inps) s)
        = s\<lparr>last_refresh_time := t', pc_loop_fd_set := fs', trace := trace s @ (es @ es')\<rparr>"
      using step rest by (simp add: s1_def)
    moreover have "\<forall>e\<in>set (es @ es'). \<not> is_teardown e" using q q' by auto
    moreover have "\<not> pc_loop_use_select s \<longrightarrow>
          (\<forall>e\<in>set (es @ es'). \<not> is_select e) \<and> (\<exists>s'. main_loop (inp # inps) s = Looping s')"
      using qs qs' sel1 step by auto
    ultimately show ?thesis by blast
  qed
qed

lemma main_loop_fields:
  "self_pipe (final (main_loop inps s)) = self_pipe s"
  "pc_loop_fd_list (final (main_loop inps s)) = pc_loop_fd_list s"
  "pc_loop_use_select (final (main_loop inps s)) = pc_loop_use_select s"
  "tracemode (final (main_loop inps s)) = tracemode s"
  "refreshdelay (final (main_loop inps s)) = refreshdelay s"
  "DEBUG (final (main_loop inps s)) = DEBUG s"
  "time_t_bits (final (main_loop inps s)) = time_t_bits s"
  "handles (final (main_loop inps s)) = handles s"
proof -
  obtain es fs t where "final (main_loop inps s)
        = s\<lparr>last_refresh_time := t, pc_loop_fd_set := fs, trace := trace s @ es\<rparr>"
    using main_loop_run [of inps s] by blast
  then show "self_pipe (final (main_loop inps s)) = self_pipe s"
  "pc_loop_fd_list (final (main_loop inps s)) = pc_loop_fd_list s"
  "pc_loop_use_select (final (main_loop inps s)) = pc_loop_use_select s"
  "tracemode (final (main_loop inps s)) = tracemode s"
  "refreshdelay (final (main_loop inps s)) = refreshdelay s"
  "DEBUG (final (main_loop inps s)) = DEBUG s"
  "time_t_bits (final (main_loop inps s)) = time_t_bits s"
  "handles (final (main_loop inps s)) = handles s"
    by simp_all
qed

lemma main_loop_quiet:
  assumes "\<And>e. p e \<Longrightarrow> is_teardown e \<or> (is_select e \<and> \<not> pc_loop_use_select s)"
  shows "filter p (trace (final (main_loop inps s))) = filter p (trace s)"
proof -
  obtain es fs t where f: "final (main_loop inps s)
        = s\<lparr>last_refresh_time := t, pc_loop_fd_set := fs, trace := trace s @ es\<rparr>"
     and q: "\<forall>e\<in>set es. \<not> is_teardown e"
     and qs: "\<not> pc_loop_use_select s \<longrightarrow> (\<forall>e\<in>set es. \<not> is_select e)"
    using main_loop_run [of inps s] by blast
  have "\<forall>e\<in>set es. \<not> p e" using assms q qs by blast
  then have "filter p es = []" by (simp add: filter_empty_conv)
  then show ?thesis using f by simp
qed

lemma startup_quiet:
  assumes "startup env s = Inr s'"
    and "\<And>e. \<not> is_teardown e \<Longrightarrow> \<not> is_select e \<Longrightarrow> \<not> p e"
  shows "filter p (trace s') = filter p (trace s)"
proof -
  obtain s1 s2 where s1: "s1 = (if \<not> tracemode s \<and> \<not> DEBUG s then emit InitUi s else s)"
    and o: "open_sessions (promisc env) (devices env)
                (s1\<lparr>self_pipe := create_self_pipe (pipe_res env) (fcntl0 env) (fcntl1 env),
                    pc_loop_fd_list := pc_loop_fd_list s1
                      @ [fst (create_self_pipe (pipe_res env) (fcntl0 env) (fcntl1 env))]\<rparr>) = Inr s2"
    and s': "s' = emit Signal s2"
    using startup_Inr [OF assms(1)] by blast
  let ?s = "s1\<lparr>self_pipe := create_self_pipe (pipe_res env) (fcntl0 env) (fcntl1 env),
                    pc_loop_fd_list := pc_loop_fd_list s1
                      @ [fst (create_self_pipe (pipe_res env) (fcntl0 env) (fcntl1 env))]\<rparr>"
  obtain n f where d: "open_devices (promisc env) (devices env) (0, 0, ?s) = Inr (n, f, s2)"
    using o by (auto simp: open_sessions_def split: sum.splits prod.splits if_splits)
  have "filter p (trace s2) = filter p (trace ?s)"
    by (rule open_devices_quiet [OF d assms(2)])
  moreover have "filter p (trace ?s) = filter p (trace s)"
    using assms(2) by (simp add: s1)
  moreover have "filter p (trace s') = filter p (trace s2)"
    using assms(2) by (simp add: s')
  ultimately show ?thesis by simp
qed

lemma startup_state:
  assumes "startup env s = Inr s'"
  shows "pc_loop_use_select s' =
           (pc_loop_use_select s \<and>
            (\<forall>d\<in>set (devices env). dp_open_live d = None \<or> pcap_get_selectable_fd d \<noteq> -1))"
    and "pc_loop_use_select s \<Longrightarrow> \<not> pc_loop_use_select s' \<Longrightarrow> pc_loop_fd_list s' = []"
    and "handles s' = sessions_of (devices env) @ handles s"
    and "tracemode s' = tracemode s" and "DEBUG s' = DEBUG s"
proof -
  obtain s1 s2 where s1: "s1 = (if \<not> tracemode s \<and> \<not> DEBUG s then emit InitUi s else s)"
    and o: "open_sessions (promisc env) (devices env)
                (s1\<lparr>self_pipe := create_self_pipe (pipe_res env) (fcntl0 env) (fcntl1 env),
                    pc_loop_fd_list := pc_loop_fd_list s1
                      @ [fst (create_self_pipe (pipe_res env) (fcntl0 env) (fcntl1 env))]\<rparr>) = Inr s2"
    and s': "s' = emit Signal s2"
    using startup_Inr [OF assms(1)] by blast
  let ?s = "s1\<lparr>self_pipe := create_self_pipe (pipe_res env) (fcntl0 env) (fcntl1 env),
                    pc_loop_fd_list := pc_loop_fd_list s1
                      @ [fst (create_self_pipe (pipe_res env) (fcntl0 env) (fcntl1 env))]\<rparr>"
  obtain n f where d: "open_devices (promisc env) (devices env) (0, 0, ?s) = Inr (n, f, s2)"
    using o by (auto simp: open_sessions_def split: sum.splits prod.splits if_splits)
  have u: "pc_loop_use_select ?s = pc_loop_use_select s" "handles ?s = handles s"
    "tracemode ?s = tracemode s" "DEBUG ?s = DEBUG s"
    by (simp_all add: s1)
  note sel = open_devices_select [OF d]
  note inr = open_devices_Inr [OF d]
  show "pc_loop_use_select s' =
           (pc_loop_use_select s \<and>
            (\<forall>d\<in>set (devices env). dp_open_live d = None \<or> pcap_get_selectable_fd d \<noteq> -1))"
    using sel u by (simp add: s')
  show "pc_loop_use_select s \<Longrightarrow> \<not> pc_loop_use_select s' \<Longrightarrow> pc_loop_fd_list s' = []"
    using sel u by (simp add: s')
  show "handles s' = sessions_of (devices env) @ handles s"
    using inr u by (simp add: s')
  show "tracemode s' = tracemode s" "DEBUG s' = DEBUG s"
    using inr u by (simp_all add: s')
qed

lemma close_all_eq:
  "close_all fds s = s\<lparr>trace := trace s @ map Close fds\<rparr>"
  by (induction fds arbitrary: s) (simp_all add: emit_def)

lemma clean_up_eq:
  "clean_up s = s\<lparr>trace := trace s @ map Close (pc_loop_fd_list s) @ [Procclean]
                     @ (if \<not> tracemode s \<and> \<not> DEBUG s then [ExitUi] else [])\<rparr>"
  by (simp add: clean_up_def close_all_eq emit_def Let_def)

subsection \<open>The refresh check\<close>

lemma refresh_check_fields [simp]:
  "refreshdelay (refresh_check t s) = refreshdelay s"
  "last_refresh_time (refresh_check t s)
     = (if time_t_sum (time_t_bits s) (last_refresh_time s) (refreshdelay s) \<le> t then t else last_refresh_time s)"
  by (simp_all add: refresh_check_eq)






subsection \<open>The shutdown trigger\<close>

text \<open>
  Claim C4. Every call of the shutdown trigger \<open>quit_cb\<close> does one of two things. When
  the trigger end of the pipe exists (is not \<open>-1\<close>), it writes the single byte \<open>x\<close>
  to that end and changes nothing else. When the end does not exist, it exits the
  process at once with status 0 and does nothing before; this is the case when the
  creation of the pipe failed (\<open>pipe\<close> or one of the two \<open>fcntl\<close> calls) and when the
  pipe has not been created yet (the initial state).
\<close>

theorem quit_cb_trigger:
  "(snd (self_pipe s) \<noteq> -1 \<longrightarrow>
      quit_cb i s = Inr (s\<lparr>trace := trace s @ [Write (snd (self_pipe s)) ''x'']\<rparr>))
   \<and> (snd (self_pipe s) = -1 \<longrightarrow> quit_cb i s = Inl (0, s))
   \<and> (pr = None \<or> f0 = -1 \<or> f1 = -1 \<longrightarrow>
        quit_cb i (s\<lparr>self_pipe := create_self_pipe pr f0 f1\<rparr>)
          = Inl (0, s\<lparr>self_pipe := (-1, -1)\<rparr>))
   \<and> quit_cb i (initial tr dl dbg w) = Inl (0, initial tr dl dbg w)"
  by (auto simp: quit_cb_def emit_def create_self_pipe_def initial_def split: option.splits)

theorem quit_cb_trigger_witness:
  "quit_cb 2 ((initial False 1 False 64)\<lparr>self_pipe := (3, 4)\<rparr>)
     = Inr ((initial False 1 False 64)\<lparr>self_pipe := (3, 4), trace := [Write 4 ''x'']\<rparr>)
   \<and> quit_cb 2 (initial False 1 False 64) = Inl (0, initial False 1 False 64)
   \<and> quit_cb 2 ((initial False 1 False 64)\<lparr>self_pipe := create_self_pipe None 0 0\<rparr>)
     = Inl (0, initial False 1 False 64)"
  using quit_cb_trigger [of "(initial False 1 False 64)\<lparr>self_pipe := (3, 4)\<rparr>" 2 None 0 0 False 1 False 64]
        quit_cb_trigger [of "initial False 1 False 64" 2 None 0 0 False 1 False 64]
  by (simp add: initial_def)

subsection \<open>Opening the sessions\<close>

text \<open>
  Claim C6, as amended. Provided the local address lookup succeeds for every device of
  the sequence: if no device opens its capture session, the opening of the sessions
  ends in the fatal exit with a non-zero status; if at least one device opens, it
  goes on with the chain extended by exactly the sessions that opened; and in both
  cases the notices printed for skipped devices are exactly one for each device that
  did not open, in the order of the devices. For \<open>main\<close> as a whole: when no device
  opens, \<open>main\<close> exits with the non-zero status without entering the loop, whatever
  else happens; and whenever startup reaches the loop, the chain holds exactly the
  sessions that opened and the trace one skip notice for each device that did not.
\<close>

theorem open_sessions_outcome:
  assumes "\<forall>d\<in>set ds. getLocal d"
  shows "((\<forall>d\<in>set ds. dp_open_live d = None) \<longrightarrow>
            (\<exists>s'. open_sessions prom ds s = Inl (EXIT_FAILURE, s')
               \<and> handles s' = handles s
               \<and> filter is_skip_notice (trace s')
                   = filter is_skip_notice (trace s) @ map skip_notice ds))
       \<and> ((\<exists>d\<in>set ds. dp_open_live d \<noteq> None) \<longrightarrow>
            (\<exists>s'. open_sessions prom ds s = Inr s'
               \<and> handles s' = sessions_of ds @ handles s
               \<and> filter is_skip_notice (trace s')
                   = filter is_skip_notice (trace s)
                     @ map skip_notice (filter (\<lambda>d. dp_open_live d = None) ds)))
       \<and> ((\<forall>d\<in>set (devices env). dp_open_live d = None) \<longrightarrow>
            (\<exists>s'. main env inps s0 = Exited EXIT_FAILURE s'))
       \<and> (startup env s0 = Inr s1 \<longrightarrow>
            handles s1 = sessions_of (devices env) @ handles s0
            \<and> filter is_skip_notice (trace s1)
                = filter is_skip_notice (trace s0)
                  @ map skip_notice (filter (\<lambda>d. dp_open_live d = None) (devices env)))
       \<and> EXIT_FAILURE \<noteq> 0"
proof -
  obtain n' f' s' where run: "open_devices prom ds (0, 0, s) = Inr (n', f', s')"
    and n': "n' = int (length ds)"
    and f': "f' = int (length (filter (\<lambda>d. dp_open_live d = None) ds))"
    using open_sessions_cases [OF assms] by blast
  note facts = open_devices_Inr [OF run]
  have eq: "n' = f' \<longleftrightarrow> (\<forall>d\<in>set ds. dp_open_live d = None)"
    unfolding n' f' using all_failed_iff [of "\<lambda>d. dp_open_live d = None" ds] by auto
  have all: "\<forall>d\<in>set ds. dp_open_live d = None \<Longrightarrow>
      filter (\<lambda>d. dp_open_live d = None) ds = ds \<and> sessions_of ds = []"
    by (induction ds) (simp_all add: session_of_def)
  have 1: "\<exists>s'. open_sessions prom ds s = Inl (EXIT_FAILURE, s')
               \<and> handles s' = handles s
               \<and> filter is_skip_notice (trace s')
                   = filter is_skip_notice (trace s) @ map skip_notice ds"
    if a: "\<forall>d\<in>set ds. dp_open_live d = None"
  proof -
    from a eq have "n' = f'" by simp
    then have "open_sessions prom ds s
        = Inl (forceExit False (''Error opening pcap handlers for all devices.'' @ endl) s')"
      by (simp add: open_sessions_def run)
    then show ?thesis
      using facts all [OF a] by (simp add: forceExit_def Let_def)
  qed
  have 2: "\<exists>s'. open_sessions prom ds s = Inr s'
               \<and> handles s' = sessions_of ds @ handles s
               \<and> filter is_skip_notice (trace s')
                   = filter is_skip_notice (trace s)
                     @ map skip_notice (filter (\<lambda>d. dp_open_live d = None) ds)"
    if b: "\<exists>d\<in>set ds. dp_open_live d \<noteq> None"
  proof -
    from b eq have "n' \<noteq> f'" by auto
    then have "open_sessions prom ds s = Inr s'"
      by (simp add: open_sessions_def run)
    then show ?thesis using facts by simp
  qed
  have 3: "\<exists>s'. main env inps s0 = Exited EXIT_FAILURE s'"
    if "\<forall>d\<in>set (devices env). dp_open_live d = None"
    using startup_all_fail [OF that, of s0] by (auto simp: main_def)
  have 4: "handles s1 = sessions_of (devices env) @ handles s0
            \<and> filter is_skip_notice (trace s1)
                = filter is_skip_notice (trace s0)
                  @ map skip_notice (filter (\<lambda>d. dp_open_live d = None) (devices env))"
    if c: "startup env s0 = Inr s1"
    using startup_sessions [OF c] by simp
  show ?thesis using 1 2 3 4 by (simp add: EXIT_FAILURE_def)
qed

theorem open_sessions_outcome_witness:
  "(\<exists>s'. open_sessions 0 [eth0, eth1, eth2] (initial False 1 False 64) = Inr s'
       \<and> handles s' = [\<lparr>content = 2, devicename = ''eth2''\<rparr>, \<lparr>content = 1, devicename = ''eth0''\<rparr>]
       \<and> filter is_skip_notice (trace s') = [skip_notice eth1])
   \<and> (\<exists>s'. open_sessions 0 [eth1] (initial False 1 False 64) = Inl (EXIT_FAILURE, s')
       \<and> handles s' = []
       \<and> filter is_skip_notice (trace s') = [skip_notice eth1])
   \<and> (\<exists>s'. main (ex_env [eth1]) [ex_pass 1 10 None] (initial False 1 False 64) = Exited EXIT_FAILURE s')
   \<and> startup (ex_env [eth0, eth1, eth2]) (initial False 1 False 64) = Inr ex_three
   \<and> handles ex_three = [\<lparr>content = 2, devicename = ''eth2''\<rparr>, \<lparr>content = 1, devicename = ''eth0''\<rparr>]
   \<and> filter is_skip_notice (trace ex_three) = [skip_notice eth1]"
proof -
  note A = open_sessions_outcome [of "[eth0, eth1, eth2]" 0 "initial False 1 False 64"
             "ex_env [eth0, eth1, eth2]" "[ex_pass 1 10 None]" "initial False 1 False 64" ex_three]
  note B = open_sessions_outcome [of "[eth1]" 0 "initial False 1 False 64"
             "ex_env [eth1]" "[ex_pass 1 10 None]" "initial False 1 False 64" ex_three]
  show ?thesis
    using A B ex_three_reached
    by (simp add: ex_dev_def eth0_def eth1_def eth2_def ex_env_def initial_def session_of_def)
qed

text \<open>
  Claim C6 as stated fails without that proviso: the device \<open>eth0\<close> opens its
  session, then the local address lookup of \<open>wlan0\<close> fails and the program exits with
  status 1 instead of entering the loop with the session of \<open>eth0\<close>.
\<close>

theorem open_then_getLocal_failure:
  "dp_open_live eth0 = Some 1 \<and>
   main (ex_env [eth0, wlan0]) [ex_pass 0 0 None] (initial False 1 False 64)
     = Exited 1
        \<lparr>self_pipe = (3, 4), last_refresh_time = 0, pc_loop_fd_set = {},
         pc_loop_fd_list = [3, 5], pc_loop_use_select = True, tracemode = False,
         refreshdelay = 1, DEBUG = False, time_t_bits = 64,
         handles = [\<lparr>content = 1, devicename = ''eth0''\<rparr>],
         trace =
           [InitUi, GetLocal ''eth0'', DpOpenLive ''eth0'' 0, DpAddcb 1 dp_packet_ip,
            DpAddcb 1 dp_packet_ip6, DpAddcb 1 dp_packet_tcp, DpAddcb 1 dp_packet_udp,
            DpSetnonblock 1, GetSelectableFd 1, GetLocal ''wlan0'', ExitUi,
            Stderr (''getifaddrs failed while establishing local IP.'' @ endl)]\<rparr>"
  by (simp add: ex_defs run_defs)

text \<open>
  Claim C10. A device whose local address lookup (\<open>getLocal\<close>) fails ends the whole
  startup: the loop over the devices exits with the non-zero status \<open>EXIT_FAILURE\<close>
  after the message about the lookup, and so does \<open>main\<close>, whatever the other devices
  do. A device that only fails to open its capture session is skipped instead: the
  loop counts it as failed, prints the skip notice and goes on.
\<close>

theorem getLocal_failure_is_fatal:
  "((\<exists>d\<in>set ds. \<not> getLocal d) \<longrightarrow>
      (\<exists>s'. open_sessions prom ds s = Inl (EXIT_FAILURE, s')
         \<and> last (trace s') = Stderr (''getifaddrs failed while establishing local IP.'' @ endl)))
   \<and> ((\<exists>d\<in>set (devices env). \<not> getLocal d) \<longrightarrow>
        (\<exists>s'. main env inps s = Exited EXIT_FAILURE s'))
   \<and> (getLocal d \<and> dp_open_live d = None \<longrightarrow>
        open_device prom d (n, f, s)
          = Inr (n + 1, f + 1,
                 emit (skip_notice d) (emit (DpOpenLive (name d) prom) (emit (GetLocal (name d)) s))))
   \<and> EXIT_FAILURE \<noteq> 0"
proof -
  have "\<exists>s'. main env inps s = Exited EXIT_FAILURE s'"
    if "\<exists>d\<in>set (devices env). \<not> getLocal d"
    using startup_getLocal_fails [OF that, of s] by (auto simp: main_def)
  moreover have "open_device prom d (n, f, s)
          = Inr (n + 1, f + 1,
                 emit (skip_notice d) (emit (DpOpenLive (name d) prom) (emit (GetLocal (name d)) s)))"
    if "getLocal d \<and> dp_open_live d = None"
    using that by (simp add: open_device_def Let_def skip_notice_def)
  ultimately show ?thesis
    using open_sessions_getLocal_fails [of ds prom s] by (simp add: EXIT_FAILURE_def)
qed

theorem getLocal_failure_is_fatal_witness:
  "(\<exists>s'. open_sessions 0 [eth0, wlan0] (initial False 1 False 64) = Inl (EXIT_FAILURE, s')
       \<and> last (trace s') = Stderr (''getifaddrs failed while establishing local IP.'' @ endl))
   \<and> (\<exists>s'. main (ex_env [eth0, wlan0]) [] (initial False 1 False 64) = Exited EXIT_FAILURE s')
   \<and> open_device 0 eth1 (1, 0, initial False 1 False 64)
       = Inr (2, 1, (initial False 1 False 64)
              \<lparr>trace := [GetLocal ''eth1'', DpOpenLive ''eth1'' 0, skip_notice eth1]\<rparr>)"
  using getLocal_failure_is_fatal [of "[eth0, wlan0]" 0 "initial False 1 False 64"
          "ex_env [eth0, wlan0]" "[]" eth1 1 0]
  by (simp add: ex_defs emit_def)

subsection \<open>The check of the rights\<close>

text \<open>
  Claim C7. When the check of the rights fails, that is the effective user is not
  root and, on Linux, the path of the binary cannot be read or the two capability bits
  \<open>CAP_NET_ADMIN\<close> and \<open>CAP_NET_RAW\<close> are not both set, \<open>main\<close> exits with the non-zero
  status \<open>EXIT_FAILURE\<close> whatever the devices and the later answers of the environment
  are, and up to that exit no capture session has been opened: the trace holds no
  call of \<open>dp_open_live\<close> that was not there before, and the chain is unchanged.
\<close>

theorem privilege_failure_opens_nothing:
  assumes "geteuid env \<noteq> 0"
    and "linux env \<longrightarrow> readlink env = -1
           \<or> \<not> (bit (caps1 env) CAP_NET_ADMIN \<and> bit (caps1 env) CAP_NET_RAW)"
  shows "\<exists>s'. main env inps s = Exited EXIT_FAILURE s'
           \<and> filter is_open (trace s') = filter is_open (trace s)
           \<and> handles s' = handles s
           \<and> EXIT_FAILURE \<noteq> 0"
proof (cases "devices env = []")
  case True
  then show ?thesis
    by (simp add: main_def startup_def forceExit_def Let_def EXIT_FAILURE_def)
next
  case False
  define s1 where "s1 = (if \<not> tracemode s \<and> \<not> DEBUG s then emit InitUi s else s)"
  obtain s' where g: "privilege_guard env s1 = Inl (EXIT_FAILURE, s')"
    and t: "filter is_open (trace s') = filter is_open (trace s1)"
    and h: "handles s' = handles s1"
    using privilege_guard_fails [OF assms, of s1] by blast
  have "startup env s = Inl (EXIT_FAILURE, s')"
    using False g by (simp add: startup_def s1_def Let_def)
  moreover have "filter is_open (trace s1) = filter is_open (trace s)" "handles s1 = handles s"
    by (simp_all add: s1_def)
  ultimately show ?thesis
    using t h by (simp add: main_def EXIT_FAILURE_def)
qed

theorem privilege_failure_opens_nothing_witness:
  "\<exists>s'. main ((ex_env [eth0, eth2])\<lparr>geteuid := 1000, caps1 := 4096\<rparr>) [ex_pass 1 0 None]
            (initial False 1 False 64) = Exited EXIT_FAILURE s'
        \<and> filter is_open (trace s') = [] \<and> handles s' = []"
  using privilege_failure_opens_nothing
          [of "(ex_env [eth0, eth2])\<lparr>geteuid := 1000, caps1 := 4096\<rparr>" "[ex_pass 1 0 None]"
              "initial False 1 False 64"]
  by (auto simp: ex_defs CAP_NET_ADMIN_def CAP_NET_RAW_def bit_numeral_word_iff)

subsection \<open>The dispatch pass and the idle wait\<close>

text \<open>
  Claim C9. In a pass of the loop in which at least one session dispatched one or
  more packets, the idle wait is not entered: the pass ends with the loop going on,
  its result does not depend on what \<open>select\<close> would have answered (so a pending
  shutdown, a readable wait end, goes unobserved), it adds no \<open>select\<close> call to the
  trace, and the loop proceeds to the next pass.
\<close>

theorem productive_pass_skips_wait:
  assumes "\<exists>h\<in>set (handles s). 0 < dp_dispatch inp h"
  shows "fst (loop_body inp s)
     \<and> loop_body (inp\<lparr>select_res := r\<rparr>) s = loop_body inp s
     \<and> filter is_select (trace (snd (loop_body inp s))) = filter is_select (trace s)
     \<and> main_loop (inp # inps) s = main_loop inps (snd (loop_body inp s))"
proof -
  obtain es fs where body: "loop_body inp s =
      ((\<exists>h\<in>set (handles s). 0 < dp_dispatch inp h)
         \<or> \<not> (pc_loop_use_select s \<and> (\<exists>r. select_res inp = Some r \<and> fst (self_pipe s) \<in> r)),
       s\<lparr>last_refresh_time :=
            (if time_t_sum (time_t_bits s) (last_refresh_time s) (refreshdelay s) \<le> now inp then now inp else last_refresh_time s),
         pc_loop_fd_set := fs, trace := trace s @ es\<rparr>)"
    and q: "(\<exists>h\<in>set (handles s). 0 < dp_dispatch inp h) \<longrightarrow> (\<forall>e\<in>set es. \<not> is_select e)"
    using loop_body_pass [of inp s] by blast
  have 1: "fst (loop_body inp s)" using body assms by simp
  have "filter is_select es = []" using q assms by (simp add: filter_empty_conv)
  then have 2: "filter is_select (trace (snd (loop_body inp s))) = filter is_select (trace s)"
    using body by simp
  have read: "fst (dispatch_pass inp (handles s) (False, s))"
    using assms by (simp add: dispatch_pass_read)
  have 3: "loop_body (inp\<lparr>select_res := r\<rparr>) s = loop_body inp s"
    using read by (cases "dispatch_pass inp (handles s) (False, s)") (simp add: loop_body_def)
  have 4: "main_loop (inp # inps) s = main_loop inps (snd (loop_body inp s))"
    using 1 by (cases "loop_body inp s") simp
  show ?thesis using 1 2 3 4 by blast
qed

theorem productive_pass_skips_wait_witness:
  "fst (loop_body (ex_pass 3 10 (Some {3})) ex_running)
     \<and> loop_body ((ex_pass 3 10 (Some {3}))\<lparr>select_res := None\<rparr>) ex_running
         = loop_body (ex_pass 3 10 (Some {3})) ex_running
     \<and> filter is_select (trace (snd (loop_body (ex_pass 3 10 (Some {3})) ex_running))) = []
     \<and> main_loop [ex_pass 3 10 (Some {3})] ex_running
         = Looping (snd (loop_body (ex_pass 3 10 (Some {3})) ex_running))"
proof -
  have h: "\<exists>h\<in>set (handles ex_running). 0 < dp_dispatch (ex_pass 3 10 (Some {3})) h"
    by (auto simp: ex_running_def ex_pass_def)
  have t: "filter is_select (trace ex_running) = []"
    by (simp add: ex_running_def)
  show ?thesis
    using productive_pass_skips_wait [OF h, of None "[]"] t by simp
qed

text \<open>
  Claim C2, as amended. In a pass of the loop in which the dispatch call of every
  session reports an error, the loop does not stop by itself: one error line is
  printed for each session, every session stays in the chain, and the pass ends as
  any other pass without packets, in the idle wait; the loop is left only when that
  wait is the \<open>select\<close> of the registry (no fallback) and finds the wait end of the
  pipe readable, and otherwise goes on to the next pass.
\<close>

theorem failing_sessions_do_not_stop:
  assumes "\<forall>h\<in>set (handles s). dp_dispatch inp h < 0"
  shows "fst (loop_body inp s)
           = (\<not> (pc_loop_use_select s \<and> (\<exists>r. select_res inp = Some r \<and> fst (self_pipe s) \<in> r)))
     \<and> handles (snd (loop_body inp s)) = handles s
     \<and> length (filter is_dispatch_error (trace (snd (loop_body inp s))))
         = length (filter is_dispatch_error (trace s)) + length (handles s)"
proof -
  obtain es fs where body: "loop_body inp s =
      ((\<exists>h\<in>set (handles s). 0 < dp_dispatch inp h)
         \<or> \<not> (pc_loop_use_select s \<and> (\<exists>r. select_res inp = Some r \<and> fst (self_pipe s) \<in> r)),
       s\<lparr>last_refresh_time :=
            (if time_t_sum (time_t_bits s) (last_refresh_time s) (refreshdelay s) \<le> now inp then now inp else last_refresh_time s),
         pc_loop_fd_set := fs, trace := trace s @ es\<rparr>)"
    and n: "length (filter is_dispatch_error es)
        = length (filter (\<lambda>h. dp_dispatch inp h < 0) (handles s))"
    using loop_body_pass [of inp s] by blast
  have np: "\<not> (\<exists>h\<in>set (handles s). 0 < dp_dispatch inp h)"
    using assms by fastforce
  have all: "filter (\<lambda>h. dp_dispatch inp h < 0) (handles s) = handles s"
    using assms by simp
  show ?thesis using body n np all by simp
qed

theorem failing_sessions_do_not_stop_witness:
  "fst (loop_body (ex_pass (-1) 10 (Some {})) ex_running)
   \<and> \<not> fst (loop_body (ex_pass (-1) 10 (Some {3})) ex_running)
   \<and> handles (snd (loop_body (ex_pass (-1) 10 (Some {})) ex_running)) = handles ex_running
   \<and> length (filter is_dispatch_error (trace (snd (loop_body (ex_pass (-1) 10 (Some {})) ex_running)))) = 2"
proof -
  have h: "\<forall>h\<in>set (handles ex_running). dp_dispatch (ex_pass (-1) 10 sel) h < 0" for sel
    by (simp add: ex_running_def ex_pass_def)
  have t: "filter is_dispatch_error (trace ex_running) = []" "length (handles ex_running) = 2"
    "pc_loop_use_select ex_running" "fst (self_pipe ex_running) = 3"
    by (simp_all add: ex_running_def)
  have p: "select_res (ex_pass (-1) 10 sel) = sel" for sel
    by (simp add: ex_pass_def)
  show ?thesis
    using failing_sessions_do_not_stop [OF h, of "Some {}"]
          failing_sessions_do_not_stop [OF h, of "Some {3}"] t p by simp
qed

text \<open>
  Claim C2 as stated fails: with the two sessions of \<open>eth2\<close> and \<open>eth0\<close> open, a pass
  in which both dispatch calls answer \<open>-1\<close> and a second in which both answer \<open>-2\<close>,
  with no shutdown requested, leave the loop running.
\<close>

theorem failing_sessions_keep_running:
  "main_loop [ex_pass (-1) 10 (Some {}), ex_pass (-2) 11 None] ex_running
     = Looping (ex_running
         \<lparr>last_refresh_time := 11, pc_loop_fd_set := {3, 5, 6},
          trace := trace ex_running @
            [DpDispatch 2, Stderr (''Error dispatching for device eth2: error'' @ endl),
             DpDispatch 1, Stderr (''Error dispatching for device eth0: error'' @ endl),
             UiTick, DoRefresh, Select 7 {3, 5, 6} 1,
             DpDispatch 2, StderrNum ''Error dispatching for device eth2: '' (-2),
             DpDispatch 1, StderrNum ''Error dispatching for device eth0: '' (-2),
             UiTick, DoRefresh, Select 7 {3, 5, 6} 1]\<rparr>)"
  by code_simp

subsection \<open>The fallback\<close>

text \<open>
  Claim C1 does not hold of the code. In the fallback (\<open>pc_loop_use_select\<close> is
  false) the idle wait does sleep a fixed 1000 microseconds instead of blocking, but
  it never looks at the pipe: after the shutdown trigger has written its byte,
  \<open>wait_for_next_trigger\<close> still answers that the loop goes on, whatever \<open>select\<close>
  would have reported, and the loop is still running after any number of passes,
  without a single \<open>select\<close> call.
\<close>

theorem fallback_never_observes_shutdown:
  assumes "\<not> pc_loop_use_select s" and "quit_cb i s = Inr s1"
  shows "wait_for_next_trigger sel s1 = (True, emit (Usleep 1000) s1)
     \<and> (\<exists>s'. main_loop inps s1 = Looping s'
              \<and> filter is_select (trace s') = filter is_select (trace s))"
proof -
  have s1: "s1 = emit (Write (snd (self_pipe s)) ''x'') s"
    using assms(2) by (simp add: quit_cb_def split: if_splits)
  then have ns: "\<not> pc_loop_use_select s1" using assms(1) by simp
  have t: "filter is_select (trace s1) = filter is_select (trace s)" by (simp add: s1)
  have w: "wait_for_next_trigger sel s1 = (True, emit (Usleep 1000) s1)"
    using ns by (simp add: wait_for_next_trigger_def)
  obtain s' where l: "main_loop inps s1 = Looping s'"
    using main_loop_run [of inps s1] ns by blast
  have "filter is_select (trace (final (main_loop inps s1))) = filter is_select (trace s1)"
    by (rule main_loop_quiet) (use ns in simp)
  then have "filter is_select (trace s') = filter is_select (trace s)"
    using l t by simp
  then show ?thesis using w l by blast
qed

theorem fallback_never_observes_shutdown_witness:
  "quit_cb 2 ex_fallback = Inr (emit (Write 4 ''x'') ex_fallback)
   \<and> wait_for_next_trigger (Some {3}) (emit (Write 4 ''x'') ex_fallback)
       = (True, emit (Usleep 1000) (emit (Write 4 ''x'') ex_fallback))
   \<and> (\<exists>s'. main_loop [ex_pass 0 10 (Some {3}), ex_pass 0 11 (Some {3})]
              (emit (Write 4 ''x'') ex_fallback) = Looping s'
          \<and> filter is_select (trace s') = [])"
proof -
  have a: "\<not> pc_loop_use_select ex_fallback" by (simp add: ex_fallback_def)
  have b: "quit_cb 2 ex_fallback = Inr (emit (Write 4 ''x'') ex_fallback)"
    by (simp add: quit_cb_def ex_fallback_def)
  have c: "filter is_select (trace ex_fallback) = []" by (simp add: ex_fallback_def)
  show ?thesis
    using fallback_never_observes_shutdown [OF a b, of "Some {3}"
            "[ex_pass 0 10 (Some {3}), ex_pass 0 11 (Some {3})]"] b c
    by simp
qed

text \<open>
  Claim C3. Once a device that opens its session has no descriptor to wait on
  (\<open>pcap_get_selectable_fd\<close> answers \<open>-1\<close>), the fallback is permanent: at the end of
  startup, whatever the devices after it are and whether or not they could be waited
  on, \<open>pc_loop_use_select\<close> is false and the registry \<open>pc_loop_fd_list\<close> is empty; both
  stay so through every pass of the loop, and from the start of the program to any
  point of the loop no \<open>select\<close> on the registry is ever called. A teardown from
  such a state finds the registry empty: it closes no descriptor and calls no
  \<open>select\<close> either.
\<close>

theorem fallback_is_permanent:
  assumes "startup env s = Inr s1"
    and "pc_loop_use_select s"
    and "d \<in> set (devices env)"
    and "dp_open_live d \<noteq> None"
    and "pcap_get_selectable_fd d = -1"
  shows "\<not> pc_loop_use_select s1 \<and> pc_loop_fd_list s1 = []
     \<and> \<not> pc_loop_use_select (final (main_loop inps s1))
     \<and> pc_loop_fd_list (final (main_loop inps s1)) = []
     \<and> filter is_select (trace (final (main_loop inps s1))) = filter is_select (trace s)
     \<and> filter is_select (trace (clean_up (final (main_loop inps s1)))) = filter is_select (trace s)
     \<and> filter is_teardown (trace (clean_up (final (main_loop inps s1))))
         = filter is_teardown (trace s) @ [Procclean]
           @ (if \<not> tracemode s \<and> \<not> DEBUG s then [ExitUi] else [])"
proof -
  have ns: "\<not> pc_loop_use_select s1"
    using startup_state(1) [OF assms(1)] assms(3,4,5) by auto
  have fl: "pc_loop_fd_list s1 = []"
    using startup_state(2) [OF assms(1) assms(2) ns] .
  have "filter is_select (trace (final (main_loop inps s1))) = filter is_select (trace s1)"
    by (rule main_loop_quiet) (use ns in simp)
  moreover have "filter is_select (trace s1) = filter is_select (trace s)"
    by (rule startup_quiet [OF assms(1)]) simp
  moreover have "filter is_teardown (trace (final (main_loop inps s1))) = filter is_teardown (trace s1)"
    by (rule main_loop_quiet) simp
  moreover have "filter is_teardown (trace s1) = filter is_teardown (trace s)"
    by (rule startup_quiet [OF assms(1)]) simp
  ultimately show ?thesis
    using ns fl startup_state(4,5) [OF assms(1)]
    by (simp add: main_loop_fields clean_up_eq)
qed

theorem fallback_is_permanent_witness:
  "startup (ex_env [eth0, tun0, eth2]) (initial False 1 False 64) = Inr ex_fallback
   \<and> dp_open_live eth2 = Some 2 \<and> pcap_get_selectable_fd eth2 = 6
   \<and> \<not> pc_loop_use_select ex_fallback \<and> pc_loop_fd_list ex_fallback = []
   \<and> \<not> pc_loop_use_select (final (main_loop [ex_pass 1 10 None, ex_pass 0 11 None] ex_fallback))
   \<and> pc_loop_fd_list (final (main_loop [ex_pass 1 10 None, ex_pass 0 11 None] ex_fallback)) = []
   \<and> filter is_select (trace (final (main_loop [ex_pass 1 10 None, ex_pass 0 11 None] ex_fallback))) = []
   \<and> filter is_teardown
         (trace (clean_up (final (main_loop [ex_pass 1 10 None, ex_pass 0 11 None] ex_fallback))))
       = [Procclean, ExitUi]"
proof -
  have a: "pc_loop_use_select (initial False 1 False 64)" by (simp add: initial_def)
  have b: "tun0 \<in> set (devices (ex_env [eth0, tun0, eth2]))" by (simp add: ex_env_def)
  have c: "dp_open_live tun0 \<noteq> None" "pcap_get_selectable_fd tun0 = -1"
    by (simp_all add: tun0_def ex_dev_def)
  have e: "dp_open_live eth2 = Some 2" "pcap_get_selectable_fd eth2 = 6"
    by (simp_all add: eth2_def ex_dev_def)
  have t: "filter is_select (trace (initial False 1 False 64)) = []"
    "filter is_teardown (trace (initial False 1 False 64)) = []"
    "\<not> tracemode (initial False 1 False 64)" "\<not> DEBUG (initial False 1 False 64)"
    by (simp_all add: initial_def)
  show ?thesis
    using fallback_is_permanent [OF ex_fallback_reached a b c,
            of "[ex_pass 1 10 None, ex_pass 0 11 None]"] ex_fallback_reached e t
    by simp
qed

subsection \<open>Teardown\<close>

text \<open>
  Claim C8, as amended. \<open>clean_up\<close> closes every descriptor of the registry
  \<open>pc_loop_fd_list\<close>, in order, then calls \<open>procclean\<close>, then leaves the UI exactly
  when the program is neither tracing nor built for debugging, and does nothing else:
  it makes no call on the capture sessions, which stay in the chain. \<open>main\<close> returns
  exactly when startup succeeded and the loop was left, and then \<open>clean_up\<close> has run
  once on the state in which the loop was left: these teardown calls are the only
  ones of their kind in the whole run, and the chain still holds every session that
  startup opened.
\<close>

theorem teardown_after_loop:
  "clean_up s = s\<lparr>trace := trace s @ map Close (pc_loop_fd_list s) @ [Procclean]
                     @ (if \<not> tracemode s \<and> \<not> DEBUG s then [ExitUi] else [])\<rparr>
   \<and> (main env inps s0 = Returned s3 \<longleftrightarrow>
        (\<exists>s1 s2. startup env s0 = Inr s1 \<and> main_loop inps s1 = Broke s2 \<and> s3 = clean_up s2))
   \<and> (main env inps s0 = Returned s3 \<longrightarrow>
        filter is_teardown (trace s3)
           = filter is_teardown (trace s0) @ map Close (pc_loop_fd_list s3) @ [Procclean]
             @ (if \<not> tracemode s0 \<and> \<not> DEBUG s0 then [ExitUi] else [])
         \<and> handles s3 = sessions_of (devices env) @ handles s0)"
proof -
  have 1: "clean_up s = s\<lparr>trace := trace s @ map Close (pc_loop_fd_list s) @ [Procclean]
                     @ (if \<not> tracemode s \<and> \<not> DEBUG s then [ExitUi] else [])\<rparr>" for s
    by (rule clean_up_eq)
  have 2: "main env inps s0 = Returned s3 \<longleftrightarrow>
        (\<exists>s1 s2. startup env s0 = Inr s1 \<and> main_loop inps s1 = Broke s2 \<and> s3 = clean_up s2)"
    by (auto simp: main_def split: sum.splits run.splits prod.splits)
  have 3: "filter is_teardown (trace s3)
           = filter is_teardown (trace s0) @ map Close (pc_loop_fd_list s3) @ [Procclean]
             @ (if \<not> tracemode s0 \<and> \<not> DEBUG s0 then [ExitUi] else [])
         \<and> handles s3 = sessions_of (devices env) @ handles s0"
    if ret: "main env inps s0 = Returned s3"
  proof -
    obtain s1 s2 where st: "startup env s0 = Inr s1" and lp: "main_loop inps s1 = Broke s2"
      and s3: "s3 = clean_up s2"
      using ret 2 by blast
    have f: "final (main_loop inps s1) = s2" using lp by simp
    have a: "filter is_teardown (trace s1) = filter is_teardown (trace s0)"
      by (rule startup_quiet [OF st]) simp
    have b: "filter is_teardown (trace s2) = filter is_teardown (trace s1)"
      using main_loop_quiet [of is_teardown s1 inps] f by simp
    have c: "tracemode s2 = tracemode s0" "DEBUG s2 = DEBUG s0"
      "handles s2 = sessions_of (devices env) @ handles s0"
      using main_loop_fields [of inps s1] f startup_state(3,4,5) [OF st] by simp_all
    have m: "filter is_teardown (map Close fds) = map Close fds" for fds
      by (induction fds) simp_all
    show ?thesis
      using a b c m by (simp add: s3 1)
  qed
  show ?thesis using 1 2 3 by blast
qed

theorem teardown_after_loop_witness:
  "main (ex_env [eth0, eth2]) [ex_pass 0 10 (Some {3})] (initial False 1 False 64)
      = Returned (clean_up ex_stopped)
   \<and> clean_up ex_stopped
      = ex_stopped\<lparr>trace := trace ex_stopped @ [Close 3, Close 5, Close 6, Procclean, ExitUi]\<rparr>
   \<and> filter is_teardown (trace (clean_up ex_stopped))
      = [Close 3, Close 5, Close 6, Procclean, ExitUi]
   \<and> handles (clean_up ex_stopped)
      = [\<lparr>content = 2, devicename = ''eth2''\<rparr>, \<lparr>content = 1, devicename = ''eth0''\<rparr>]"
proof -
  have l: "main_loop [ex_pass 0 10 (Some {3})] ex_running = Broke ex_stopped"
    by code_simp
  have m: "main (ex_env [eth0, eth2]) [ex_pass 0 10 (Some {3})] (initial False 1 False 64)
      = Returned (clean_up ex_stopped)"
    by (simp add: main_def ex_running_reached l del: main_loop.simps)
  have f: "pc_loop_fd_list ex_stopped = [3, 5, 6]" "tracemode ex_stopped = False"
    "DEBUG ex_stopped = False"
    by (simp_all add: ex_stopped_def ex_running_def)
  have i: "trace (initial False 1 False 64) = []" "handles (initial False 1 False 64) = []"
    "tracemode (initial False 1 False 64) = False" "DEBUG (initial False 1 False 64) = False"
    by (simp_all add: initial_def)
  have d: "sessions_of (devices (ex_env [eth0, eth2]))
      = [\<lparr>content = 2, devicename = ''eth2''\<rparr>, \<lparr>content = 1, devicename = ''eth0''\<rparr>]"
    by (simp add: ex_defs session_of_def)
  note T = teardown_after_loop [of ex_stopped "ex_env [eth0, eth2]" "[ex_pass 0 10 (Some {3})]"
            "initial False 1 False 64" "clean_up ex_stopped"]
  have c: "clean_up ex_stopped
      = ex_stopped\<lparr>trace := trace ex_stopped @ [Close 3, Close 5, Close 6, Procclean, ExitUi]\<rparr>"
    using T [THEN conjunct1] f by simp
  have fl: "pc_loop_fd_list (clean_up ex_stopped) = [3, 5, 6]"
    using f by (simp add: c)
  have e: "filter is_teardown (trace (clean_up ex_stopped))
      = [Close 3, Close 5, Close 6, Procclean, ExitUi]
    \<and> handles (clean_up ex_stopped)
      = [\<lparr>content = 2, devicename = ''eth2''\<rparr>, \<lparr>content = 1, devicename = ''eth0''\<rparr>]"
    using T [THEN conjunct2, THEN conjunct2, rule_format, OF m] fl i d by simp
  show ?thesis using m c e by blast
qed

text \<open>
  Claim C8 as stated fails in the release of the capture sessions: in the run that
  opens \<open>eth0\<close> and \<open>eth2\<close> and is stopped in its first pass, what follows the loop
  is the closing of the three descriptors of the registry, \<open>procclean\<close> and the exit
  from the UI; no call releases the capture handles 1 and 2, and both sessions are
  still in the chain when \<open>main\<close> returns.
\<close>

theorem teardown_leaves_sessions:
  "main (ex_env [eth0, eth2]) [ex_pass 0 10 (Some {3})] (initial False 1 False 64)
      = Returned (ex_stopped\<lparr>trace := trace ex_stopped
                     @ [Close 3, Close 5, Close 6, Procclean, ExitUi]\<rparr>)
   \<and> handles ex_stopped
      = [\<lparr>content = 2, devicename = ''eth2''\<rparr>, \<lparr>content = 1, devicename = ''eth0''\<rparr>]"
  by code_simp

subsection \<open>The cadence of the refresh\<close>




end
